theory Spec2Isabelle
  imports Complex_Main "HOL-Library.Signed_Division"
begin

section \<open>Vector, Matrix and the banded LDLT solver of Matrix.cpp\<close>

text \<open>
  The embedding follows \<^verbatim>\<open>src/Matrix/src/Matrix.cpp\<close> and \<^verbatim>\<open>src/inc/1.0/Matrix.h\<close>.

  \<^item> A C++ \<^verbatim>\<open>int\<close> is a HOL \<open>int\<close>. The one product of two dimensions that the
    code takes in \<^verbatim>\<open>int\<close>, \<^verbatim>\<open>rws*cls\<close> in \<^verbatim>\<open>alloc\<close>, wraps around at 32 bits
    (\<open>int32\<close>). On a matrix of \<^verbatim>\<open>rws*cls\<close> allocated cells the indices of the solver
    stay in range (\<^verbatim>\<open>i + cls\<close> is below \<^verbatim>\<open>2 * rws\<close>). \<^verbatim>\<open>cap/2\<close> is the truncating
    division \<open>sdiv\<close>.
  \<^item> A C++ \<^verbatim>\<open>double\<close> is a type variable \<open>'a\<close> that carries only the operations the
    code applies to it (\<open>0\<close>, \<open>+\<close>, \<open>-\<close>, \<open>*\<close>, \<open>/\<close>, \<open>abs\<close>, \<open><\<close> and numerals),
    with no law assumed about them. What is proved for every such \<open>'a\<close> holds whatever
    the arithmetic does, rounding, infinities and division by zero included. The
    literal \<^verbatim>\<open>1e-12\<close> is \<open>1 / 1000000000000\<close>: in \<^verbatim>\<open>double\<close> arithmetic that quotient
    is the \<^verbatim>\<open>double\<close> next to the twelfth negative power of ten, which is the value
    of the literal. \<^verbatim>\<open>sqrt\<close> is taken on \<open>real\<close>.
  \<^item> A raised exception is \<open>Inl (e, s)\<close>: the exception and the state the object is left
    in at the \<^verbatim>\<open>throw\<close>. A raw pointer access outside its array (undefined behaviour
    in C++) is the error \<open>MemoryFault\<close>.
  \<^item> \<^verbatim>\<open>new double[n]\<close> yields an array at some address with indeterminate contents:
    the address and the contents are parameters of the model (\<open>'a allocation\<close>).
    Running out of memory is not modelled.
\<close>

subsection \<open>Errors, raw arrays, loops\<close>

datatype error =
  IllegalArgumentException
| IndexOutOfBoundsException
| BadArrayNewLength
| MemoryFault

text \<open>\<^verbatim>\<open>p[i]\<close> on a raw array: defined only inside the array.\<close>

definition rd :: "'a list \<Rightarrow> int \<Rightarrow> 'a option" where
  "rd xs i = (if 0 \<le> i \<and> i < int (length xs) then Some (xs ! nat i) else None)"

definition wr :: "'a list \<Rightarrow> int \<Rightarrow> 'a \<Rightarrow> 'a list option" where
  "wr xs i x = (if 0 \<le> i \<and> i < int (length xs) then Some (xs[nat i := x]) else None)"

text \<open>\<^verbatim>\<open>memset(p + off, 0, n * sizeof(double))\<close> and
  \<^verbatim>\<open>memmove(dst, src, n * sizeof(double))\<close> on the contents of the arrays.\<close>

definition memset0 :: "'a::zero list \<Rightarrow> int \<Rightarrow> int \<Rightarrow> 'a list option" where
  "memset0 xs off n =
     (if 0 \<le> off \<and> 0 \<le> n \<and> off + n \<le> int (length xs)
      then Some (take (nat off) xs @ replicate (nat n) 0 @ drop (nat (off + n)) xs)
      else None)"

definition memmove_cells :: "'a list \<Rightarrow> 'a list \<Rightarrow> int \<Rightarrow> 'a list option" where
  "memmove_cells dst src n =
     (if 0 \<le> n \<and> n \<le> int (length dst) \<and> n \<le> int (length src)
      then Some (take (nat n) src @ drop (nat n) dst)
      else None)"

text \<open>An array on the heap: where it is and what it holds. A pointer is
  \<open>'a block option\<close>, \<open>None\<close> being \<^verbatim>\<open>NULL\<close>.\<close>

record 'a block =
  addr :: nat
  cells :: "'a list"

record 'a allocation =
  fresh_addr :: nat
  garbage :: "nat \<Rightarrow> 'a"

definition new_array :: "'a allocation \<Rightarrow> int \<Rightarrow> error + 'a block" where
  "new_array nw n =
     (if n < 0 then Inl BadArrayNewLength
      else Inr \<lparr>addr = fresh_addr nw, cells = map (garbage nw) [0..<nat n]\<rparr>)"

definition mem :: "'a block option \<Rightarrow> 'a list" where
  "mem p = (case p of None \<Rightarrow> [] | Some b \<Rightarrow> cells b)"

definition store :: "'a block option \<Rightarrow> 'a list \<Rightarrow> 'a block option" where
  "store p xs = (case p of None \<Rightarrow> None | Some b \<Rightarrow> Some (b\<lparr>cells := xs\<rparr>))"

text \<open>\<^verbatim>\<open>for (int i = lo; i < hi; ++i) body\<close>; the bounds are fixed when the loop is
  entered, as they are at every loop of the file. The loop stops at the first error.\<close>

function for_loop ::
  "int \<Rightarrow> int \<Rightarrow> (int \<Rightarrow> 's \<Rightarrow> (error \<times> 's) + 's) \<Rightarrow> 's \<Rightarrow> (error \<times> 's) + 's" where
  "for_loop i hi body s =
     (if i < hi
      then (case body i s of Inl e \<Rightarrow> Inl e | Inr s' \<Rightarrow> for_loop (i + 1) hi body s')
      else Inr s)"
  by pat_completeness auto
termination
  by (relation "measure (\<lambda>(i, hi, body, s). nat (hi - i))") auto

declare for_loop.simps [simp del]

text \<open>\<^verbatim>\<open>for (int i = hi; i >= lo; --i) body\<close>, as \<open>for_down hi lo body\<close>.\<close>

function for_down ::
  "int \<Rightarrow> int \<Rightarrow> (int \<Rightarrow> 's \<Rightarrow> (error \<times> 's) + 's) \<Rightarrow> 's \<Rightarrow> (error \<times> 's) + 's" where
  "for_down i lo body s =
     (if i \<ge> lo
      then (case body i s of Inl e \<Rightarrow> Inl e | Inr s' \<Rightarrow> for_down (i - 1) lo body s')
      else Inr s)"
  by pat_completeness auto
termination
  by (relation "measure (\<lambda>(i, lo, body, s). nat (i + 1 - lo))") auto

declare for_down.simps [simp del]

subsection \<open>Vector\<close>

record 'a vector =
  va :: "'a block option"
  sz :: int
  cap :: int

text \<open>The invariant of the class, and what a vector built by the public constructors
  satisfies besides: \<^verbatim>\<open>va\<close> points to an array of \<^verbatim>\<open>cap\<close> cells.\<close>

definition vec_inv :: "'a vector \<Rightarrow> bool" where
  "vec_inv v = (0 \<le> sz v \<and> sz v \<le> cap v)"

definition vec_wf :: "'a vector \<Rightarrow> bool" where
  "vec_wf v = (vec_inv v \<and> va v \<noteq> None \<and> int (length (mem (va v))) = cap v)"

text \<open>\<^verbatim>\<open>Vector::setSize(int newSz, bool preserve, bool zeroInit)\<close>, lines 31 to 63.\<close>

definition setSize ::
  "'a::zero allocation \<Rightarrow> 'a vector \<Rightarrow> int \<Rightarrow> bool \<Rightarrow> bool \<Rightarrow> (error \<times> 'a vector) + 'a vector" where
  "setSize nw v newSz preserve zeroInit =
     (if newSz < 0 then Inl (IllegalArgumentException, v)
      else if newSz \<ge> cap v sdiv 2 \<and> newSz \<le> cap v then
        (if zeroInit \<and> newSz > sz v then
           (case memset0 (mem (va v)) (sz v) (newSz - sz v) of
              None \<Rightarrow> Inl (MemoryFault, v)
            | Some xs \<Rightarrow> Inr (v\<lparr>va := store (va v) xs, sz := newSz\<rparr>))
         else Inr (v\<lparr>sz := newSz\<rparr>))
      else if preserve \<and> va v \<noteq> None then
        (case new_array nw newSz of
           Inl e \<Rightarrow> Inl (e, v)
         | Inr newVa \<Rightarrow>
             (if newSz \<le> sz v then
                (case memmove_cells (cells newVa) (mem (va v)) newSz of
                   None \<Rightarrow> Inl (MemoryFault, v)
                 | Some xs \<Rightarrow> Inr \<lparr>va = Some (newVa\<lparr>cells := xs\<rparr>), sz = newSz, cap = newSz\<rparr>)
              else
                (case memmove_cells (cells newVa) (mem (va v)) (sz v) of
                   None \<Rightarrow> Inl (MemoryFault, v)
                 | Some xs \<Rightarrow>
                     (if zeroInit then
                        (case memset0 xs (sz v) (newSz - sz v) of
                           None \<Rightarrow> Inl (MemoryFault, v)
                         | Some ys \<Rightarrow>
                             Inr \<lparr>va = Some (newVa\<lparr>cells := ys\<rparr>), sz = newSz, cap = newSz\<rparr>)
                      else Inr \<lparr>va = Some (newVa\<lparr>cells := xs\<rparr>), sz = newSz, cap = newSz\<rparr>))))
      else
        (case new_array nw newSz of
           Inl e \<Rightarrow> Inl (e, v)
         | Inr newVa \<Rightarrow>
             (if zeroInit then
                (case memset0 (cells newVa) 0 newSz of
                   None \<Rightarrow> Inl (MemoryFault, v)
                 | Some xs \<Rightarrow> Inr \<lparr>va = Some (newVa\<lparr>cells := xs\<rparr>), sz = newSz, cap = newSz\<rparr>)
              else Inr \<lparr>va = Some newVa, sz = newSz, cap = newSz\<rparr>)))"

text \<open>\<^verbatim>\<open>Vector::Vector(double *arr, int len)\<close>, lines 68 to 71: the private constructor,
  which the friend class \<^verbatim>\<open>PVector\<close> calls. It takes the array as it is given and checks
  nothing.\<close>

definition Vector_arr :: "'a block option \<Rightarrow> int \<Rightarrow> 'a vector" where
  "Vector_arr arr len = \<lparr>va = arr, sz = (if arr \<noteq> None then len else 0), cap = len\<rparr>"

text \<open>\<^verbatim>\<open>Vector::Vector(int vSize, bool zeroInit)\<close>, lines 75 to 83. An exception in a
  constructor leaves no object, so the error carries none.\<close>

definition Vector :: "'a::zero allocation \<Rightarrow> int \<Rightarrow> bool \<Rightarrow> error + 'a vector" where
  "Vector nw vSize zeroInit =
     (if vSize < 0 then Inl IllegalArgumentException
      else
        (case new_array nw vSize of
           Inl e \<Rightarrow> Inl e
         | Inr b \<Rightarrow>
             (if zeroInit then
                (case memset0 (cells b) 0 vSize of
                   None \<Rightarrow> Inl MemoryFault
                 | Some xs \<Rightarrow> Inr \<lparr>va = Some (b\<lparr>cells := xs\<rparr>), sz = vSize, cap = vSize\<rparr>)
              else Inr \<lparr>va = Some b, sz = vSize, cap = vSize\<rparr>)))"

text \<open>\<^verbatim>\<open>Vector::Vector(const Vector& cp)\<close>, lines 87 to 93.\<close>

definition Vector_copy :: "'a allocation \<Rightarrow> 'a vector \<Rightarrow> error + 'a vector" where
  "Vector_copy nw cp =
     (case new_array nw (sz cp) of
        Inl e \<Rightarrow> Inl e
      | Inr b \<Rightarrow>
          (case memmove_cells (cells b) (mem (va cp)) (sz cp) of
             None \<Rightarrow> Inl MemoryFault
           | Some xs \<Rightarrow> Inr \<lparr>va = Some (b\<lparr>cells := xs\<rparr>), sz = sz cp, cap = sz cp\<rparr>))"

text \<open>\<^verbatim>\<open>Vector::operator=(const Vector& src)\<close>, lines 104 to 111, for a source that is
  another object.\<close>

definition Vector_assign ::
  "'a::zero allocation \<Rightarrow> 'a vector \<Rightarrow> 'a vector \<Rightarrow> (error \<times> 'a vector) + 'a vector" where
  "Vector_assign nw v src =
     (case setSize nw v (sz src) False False of
        Inl e \<Rightarrow> Inl e
      | Inr v' \<Rightarrow>
          (case memmove_cells (mem (va v')) (mem (va src)) (sz v') of
             None \<Rightarrow> Inl (MemoryFault, v')
           | Some xs \<Rightarrow> Inr (v'\<lparr>va := store (va v') xs\<rparr>)))"

text \<open>\<^verbatim>\<open>Vector::clear()\<close>, lines 115 to 118.\<close>

definition clear :: "'a::zero vector \<Rightarrow> (error \<times> 'a vector) + 'a vector" where
  "clear v =
     (case memset0 (mem (va v)) 0 (sz v) of
        None \<Rightarrow> Inl (MemoryFault, v)
      | Some xs \<Rightarrow> Inr (v\<lparr>va := store (va v) xs\<rparr>))"

text \<open>\<^verbatim>\<open>Vector::operator[](int idx)\<close>, lines 122 to 137: the \<^verbatim>\<open>const\<close> one returns the
  value; the other returns a reference, through which the caller reads (\<open>vector_get\<close>)
  or writes (\<open>vector_set\<close>) the entry.\<close>

definition vector_get :: "'a vector \<Rightarrow> int \<Rightarrow> error + 'a" where
  "vector_get v idx =
     (if idx < 0 \<or> idx \<ge> sz v then Inl IndexOutOfBoundsException
      else (case rd (mem (va v)) idx of None \<Rightarrow> Inl MemoryFault | Some x \<Rightarrow> Inr x))"

definition vector_set :: "'a vector \<Rightarrow> int \<Rightarrow> 'a \<Rightarrow> (error \<times> 'a vector) + 'a vector" where
  "vector_set v idx x =
     (if idx < 0 \<or> idx \<ge> sz v then Inl (IndexOutOfBoundsException, v)
      else
        (case wr (mem (va v)) idx x of
           None \<Rightarrow> Inl (MemoryFault, v)
         | Some xs \<Rightarrow> Inr (v\<lparr>va := store (va v) xs\<rparr>)))"

text \<open>The loop \<^verbatim>\<open>for (int i=0; i<sz; i++) dst[i] = a[i] op b[i]\<close> of the binary
  operators, on the cells of \<^verbatim>\<open>dst\<close>.\<close>

definition zip_loop ::
  "('a \<Rightarrow> 'a \<Rightarrow> 'a) \<Rightarrow> int \<Rightarrow> 'a list \<Rightarrow> 'a list \<Rightarrow> 'a list \<Rightarrow> (error \<times> 'a list) + 'a list" where
  "zip_loop f n a b dst =
     for_loop 0 n
       (\<lambda>i d. case rd a i of
                 None \<Rightarrow> Inl (MemoryFault, d)
               | Some x \<Rightarrow>
                   (case rd b i of
                      None \<Rightarrow> Inl (MemoryFault, d)
                    | Some y \<Rightarrow>
                        (case wr d i (f x y) of
                           None \<Rightarrow> Inl (MemoryFault, d)
                         | Some d' \<Rightarrow> Inr d')))
       dst"

text \<open>\<^verbatim>\<open>operator+\<close> and \<^verbatim>\<open>operator-\<close>, lines 141 to 150 and 165 to 174: a new vector.\<close>

definition vector_binop ::
  "('a \<Rightarrow> 'a \<Rightarrow> 'a) \<Rightarrow> 'a::zero allocation \<Rightarrow> 'a vector \<Rightarrow> 'a vector \<Rightarrow> error + 'a vector" where
  "vector_binop f nw u v =
     (if sz u \<noteq> sz v then Inl IllegalArgumentException
      else
        (case Vector nw (sz u) False of
           Inl e \<Rightarrow> Inl e
         | Inr result \<Rightarrow>
             (case zip_loop f (sz u) (mem (va u)) (mem (va v)) (mem (va result)) of
                Inl (e, d) \<Rightarrow> Inl e
              | Inr d \<Rightarrow> Inr (result\<lparr>va := store (va result) d\<rparr>))))"

definition vector_plus ::
  "'a::{zero,plus} allocation \<Rightarrow> 'a vector \<Rightarrow> 'a vector \<Rightarrow> error + 'a vector" where
  "vector_plus = vector_binop (+)"

definition vector_minus ::
  "'a::{zero,minus} allocation \<Rightarrow> 'a vector \<Rightarrow> 'a vector \<Rightarrow> error + 'a vector" where
  "vector_minus = vector_binop (-)"

text \<open>\<^verbatim>\<open>operator+=\<close> and \<^verbatim>\<open>operator-=\<close>, lines 154 to 161 and 178 to 185: in place.\<close>

definition vector_binop_assign ::
  "('a \<Rightarrow> 'a \<Rightarrow> 'a) \<Rightarrow> 'a vector \<Rightarrow> 'a vector \<Rightarrow> (error \<times> 'a vector) + 'a vector" where
  "vector_binop_assign f u v =
     (if sz u \<noteq> sz v then Inl (IllegalArgumentException, u)
      else
        (case zip_loop f (sz u) (mem (va u)) (mem (va v)) (mem (va u)) of
           Inl (e, d) \<Rightarrow> Inl (e, u\<lparr>va := store (va u) d\<rparr>)
         | Inr d \<Rightarrow> Inr (u\<lparr>va := store (va u) d\<rparr>)))"

definition vector_plus_assign ::
  "'a::plus vector \<Rightarrow> 'a vector \<Rightarrow> (error \<times> 'a vector) + 'a vector" where
  "vector_plus_assign = vector_binop_assign (+)"

definition vector_minus_assign ::
  "'a::minus vector \<Rightarrow> 'a vector \<Rightarrow> (error \<times> 'a vector) + 'a vector" where
  "vector_minus_assign = vector_binop_assign (-)"

text \<open>\<^verbatim>\<open>operator*(const Vector& v)\<close>, lines 189 to 198: the dot product. The loop state
  is the accumulator \<^verbatim>\<open>prod\<close>.\<close>

definition vector_dot :: "'a::{zero,plus,times} vector \<Rightarrow> 'a vector \<Rightarrow> error + 'a" where
  "vector_dot u v =
     (if sz u \<noteq> sz v then Inl IllegalArgumentException
      else
        (case for_loop 0 (sz u)
                (\<lambda>i prod. case rd (mem (va u)) i of
                   None \<Rightarrow> Inl (MemoryFault, prod)
                 | Some x \<Rightarrow>
                     (case rd (mem (va v)) i of
                        None \<Rightarrow> Inl (MemoryFault, prod)
                      | Some y \<Rightarrow> Inr (prod + x * y)))
                0 of
           Inl (e, p) \<Rightarrow> Inl e
         | Inr p \<Rightarrow> Inr p))"

text \<open>\<^verbatim>\<open>operator*(double fact)\<close> and \<^verbatim>\<open>operator*=(double fact)\<close>, lines 202 to 218.\<close>

definition scale_loop ::
  "'a::times \<Rightarrow> int \<Rightarrow> 'a list \<Rightarrow> 'a list \<Rightarrow> (error \<times> 'a list) + 'a list" where
  "scale_loop fct n a dst =
     for_loop 0 n
       (\<lambda>i d. case rd a i of
                 None \<Rightarrow> Inl (MemoryFault, d)
               | Some x \<Rightarrow>
                   (case wr d i (x * fct) of
                      None \<Rightarrow> Inl (MemoryFault, d)
                    | Some d' \<Rightarrow> Inr d'))
       dst"

definition vector_scale ::
  "'a::{zero,times} allocation \<Rightarrow> 'a vector \<Rightarrow> 'a \<Rightarrow> error + 'a vector" where
  "vector_scale nw u fct =
     (case Vector nw (sz u) False of
        Inl e \<Rightarrow> Inl e
      | Inr result \<Rightarrow>
          (case scale_loop fct (sz u) (mem (va u)) (mem (va result)) of
             Inl (e, d) \<Rightarrow> Inl e
           | Inr d \<Rightarrow> Inr (result\<lparr>va := store (va result) d\<rparr>)))"

definition vector_scale_assign ::
  "'a::times vector \<Rightarrow> 'a \<Rightarrow> (error \<times> 'a vector) + 'a vector" where
  "vector_scale_assign u fct =
     (case scale_loop fct (sz u) (mem (va u)) (mem (va u)) of
        Inl (e, d) \<Rightarrow> Inl (e, u\<lparr>va := store (va u) d\<rparr>)
      | Inr d \<Rightarrow> Inr (u\<lparr>va := store (va u) d\<rparr>))"

text \<open>\<^verbatim>\<open>Vector::len()\<close> and \<^verbatim>\<open>Vector::len(int dims)\<close>, lines 222 to 248. The loop state is
  the accumulator \<^verbatim>\<open>len\<close>.\<close>

definition sum_squares :: "real list \<Rightarrow> int \<Rightarrow> (error \<times> real) + real" where
  "sum_squares a n =
     for_loop 0 n
       (\<lambda>i len. case rd a i of
                   None \<Rightarrow> Inl (MemoryFault, len)
                 | Some val \<Rightarrow> Inr (len + val * val))
       0"

definition len :: "real vector \<Rightarrow> error + real" where
  "len v =
     (case sum_squares (mem (va v)) (sz v) of
        Inl (e, l) \<Rightarrow> Inl e
      | Inr l \<Rightarrow> Inr (sqrt l))"

definition len_dims :: "real vector \<Rightarrow> int \<Rightarrow> error + real" where
  "len_dims v dims =
     (if dims > sz v then Inl IllegalArgumentException
      else
        (case sum_squares (mem (va v)) dims of
           Inl (e, l) \<Rightarrow> Inl e
         | Inr l \<Rightarrow> Inr (sqrt l)))"

subsection \<open>Matrix\<close>

text \<open>\<^verbatim>\<open>double **mat\<close> is the table of the rows: \<open>mat m ! i\<close> is the row that
  \<^verbatim>\<open>mat[i]\<close> points to, the cells \<^verbatim>\<open>i*cls\<close> to \<^verbatim>\<open>(i+1)*cls - 1\<close> of \<^verbatim>\<open>matRows\<close> as
  \<^verbatim>\<open>alloc\<close> lays them out. An access \<^verbatim>\<open>mat[i][c]\<close> outside the table or outside the row is
  a \<open>MemoryFault\<close>.\<close>

record 'a matrix =
  mat :: "'a list list"
  rws :: int
  cls :: int

definition mat_wf :: "'a matrix \<Rightarrow> bool" where
  "mat_wf m =
     (0 \<le> rws m \<and> 0 \<le> cls m \<and> int (length (mat m)) = rws m \<and>
      (\<forall>row \<in> set (mat m). int (length row) = cls m))"

definition rd2 :: "'a list list \<Rightarrow> int \<Rightarrow> int \<Rightarrow> 'a option" where
  "rd2 m i c = (case rd m i of None \<Rightarrow> None | Some row \<Rightarrow> rd row c)"

definition wr2 :: "'a list list \<Rightarrow> int \<Rightarrow> int \<Rightarrow> 'a \<Rightarrow> 'a list list option" where
  "wr2 m i c x =
     (case rd m i of
        None \<Rightarrow> None
      | Some row \<Rightarrow> (case wr row c x of None \<Rightarrow> None | Some row' \<Rightarrow> wr m i row'))"

text \<open>A value of type \<^verbatim>\<open>int\<close> after an arithmetic operation: the result modulo
  \<open>2 ^ 32\<close>, from \<open>- (2 ^ 31)\<close> to \<open>2 ^ 31 - 1\<close>.\<close>

definition int32 :: "int \<Rightarrow> int" where
  "int32 x = (x + 2147483648) mod 4294967296 - 2147483648"

text \<open>\<^verbatim>\<open>Matrix::alloc(int rows, int cols, bool setZero)\<close>, lines 252 to 271. The fields are
  set before \<^verbatim>\<open>new\<close> can fail. \<^verbatim>\<open>matRows\<close> gets \<^verbatim>\<open>rws*cls\<close> cells, a product taken in
  \<^verbatim>\<open>int\<close>; \<open>g\<close> is what the new array holds. \<^verbatim>\<open>mat[i]\<close> points \<^verbatim>\<open>i*cls\<close> cells into
  \<^verbatim>\<open>matRows\<close>, and row \<open>i\<close> of the table is what of \<^verbatim>\<open>matRows\<close> lies at \<^verbatim>\<open>mat[i][0]\<close> to
  \<^verbatim>\<open>mat[i][cls-1]\<close>: all \<^verbatim>\<open>cls\<close> cells when the product did not wrap, fewer or none when
  it did.\<close>

definition alloc ::
  "(nat \<Rightarrow> 'a::zero) \<Rightarrow> 'a matrix \<Rightarrow> int \<Rightarrow> int \<Rightarrow> bool \<Rightarrow> (error \<times> 'a matrix) + 'a matrix" where
  "alloc g m rows cols setZero =
     (if rows < 0 \<or> int32 (rows * cols) < 0
      then Inl (BadArrayNewLength, \<lparr>mat = [], rws = rows, cls = cols\<rparr>)
      else
        (let matRows = map (\<lambda>k. if setZero then 0 else g k) [0..<nat (int32 (rows * cols))]
         in Inr \<lparr>mat = map (\<lambda>i. take (nat cols) (drop (i * nat cols) matRows)) [0..<nat rows],
                   rws = rows, cls = cols\<rparr>))"

text \<open>\<^verbatim>\<open>Matrix::transpose(Matrix& transposedMat) const\<close>, lines 366 to 376, for an
  output that is another object.\<close>

definition Matrix_transpose ::
  "(nat \<Rightarrow> 'a::zero) \<Rightarrow> 'a matrix \<Rightarrow> 'a matrix \<Rightarrow> (error \<times> 'a matrix) + 'a matrix" where
  "Matrix_transpose g m transposedMat =
     (case (if rws transposedMat \<noteq> cls m \<or> cls transposedMat \<noteq> rws m
            then alloc g transposedMat (cls m) (rws m) False
            else Inr transposedMat) of
        Inl e \<Rightarrow> Inl e
      | Inr t0 \<Rightarrow>
          for_loop 0 (rws m)
            (\<lambda>i t. case rd (mat m) i of
                      None \<Rightarrow> Inl (MemoryFault, t)
                    | Some row \<Rightarrow>
                        for_loop 0 (cls m)
                          (\<lambda>j t. case rd row j of
                                    None \<Rightarrow> Inl (MemoryFault, t)
                                  | Some x \<Rightarrow>
                                      (case wr2 (mat t) j i x of
                                         None \<Rightarrow> Inl (MemoryFault, t)
                                       | Some m' \<Rightarrow> Inr (t\<lparr>mat := m'\<rparr>)))
                          t)
            t0)"

subsection \<open>The factorization pass of solveLDLT\<close>

text \<open>Lines 428 to 475 of \<^verbatim>\<open>solveLDLT(Vector&)\<close> and lines 526 to 568 of
  \<^verbatim>\<open>solveLDLT(Matrix&)\<close> are the same text (but for a comment and the layout of the
  \<^verbatim>\<open>k\<close> loop), and are modelled once. The state of the pass is the coefficient matrix
  and the two scratch arrays; \<^verbatim>\<open>_malloca\<close> and \<^verbatim>\<open>new\<close> both yield \<^verbatim>\<open>rws\<close> cells of
  indeterminate contents, given by \<open>gl\<close> and \<open>gr\<close>.\<close>

record 'a frame =
  self :: "'a matrix"
  lwbIdx :: "int list"
  r :: "'a list"

definition ldlt_scratch :: "(nat \<Rightarrow> int) \<Rightarrow> (nat \<Rightarrow> 'a) \<Rightarrow> 'a matrix \<Rightarrow> 'a frame" where
  "ldlt_scratch gl gr m =
     \<lparr>self = m, lwbIdx = map gl [0..<nat (rws m)], r = map gr [0..<nat (rws m)]\<rparr>"

text \<open>\<^verbatim>\<open>for (int i=0; i<cls; ++i) lwbIdx[i] = 0;\<close>
  \<^verbatim>\<open>for (int i=cls; i<rws; ++i) lwbIdx[i] = i-cls+1;\<close>\<close>

definition ldlt_init :: "'a frame \<Rightarrow> (error \<times> 'a frame) + 'a frame" where
  "ldlt_init s0 =
     (case for_loop 0 (cls (self s0))
             (\<lambda>i s. case wr (lwbIdx s) i 0 of
                       None \<Rightarrow> Inl (MemoryFault, s)
                     | Some l \<Rightarrow> Inr (s\<lparr>lwbIdx := l\<rparr>))
             s0 of
        Inl e \<Rightarrow> Inl e
      | Inr s1 \<Rightarrow>
          for_loop (cls (self s1)) (rws (self s1))
            (\<lambda>i s. case wr (lwbIdx s) i (i - cls (self s) + 1) of
                      None \<Rightarrow> Inl (MemoryFault, s)
                    | Some l \<Rightarrow> Inr (s\<lparr>lwbIdx := l\<rparr>))
            s1)"

text \<open>The body of \<^verbatim>\<open>for (int j=lwbIdx[i]; j<i; ++j)\<close>, lines 448 to 453; the loop state
  is the local \<^verbatim>\<open>dd\<close> and the frame.\<close>

definition diag_body ::
  "int \<Rightarrow> int \<Rightarrow> 'a::{minus,times} \<times> 'a frame \<Rightarrow> (error \<times> 'a \<times> 'a frame) + 'a \<times> 'a frame" where
  "diag_body i j ds =
     (case ds of (dd, s) \<Rightarrow>
        (case rd2 (mat (self s)) j (i - j) of
           None \<Rightarrow> Inl (MemoryFault, ds)
         | Some m \<Rightarrow>
             (case rd2 (mat (self s)) j 0 of
                None \<Rightarrow> Inl (MemoryFault, ds)
              | Some d \<Rightarrow>
                  (case wr (r s) j (d * m) of
                     None \<Rightarrow> Inl (MemoryFault, ds)
                   | Some r' \<Rightarrow> Inr (dd - (d * m) * m, s\<lparr>r := r'\<rparr>)))))"

text \<open>The body of \<^verbatim>\<open>for (int k=st; k<i; ++k) m -= mat[k][j-k] * r[k];\<close> where \<^verbatim>\<open>m\<close> is
  the reference \<^verbatim>\<open>mat[i][j-i]\<close>.\<close>

definition elim_body :: "int \<Rightarrow> int \<Rightarrow> int \<Rightarrow> 'a::{minus,times} frame \<Rightarrow> (error \<times> 'a frame) + 'a frame" where
  "elim_body i j k s =
     (case rd2 (mat (self s)) k (j - k) of
        None \<Rightarrow> Inl (MemoryFault, s)
      | Some a \<Rightarrow>
          (case rd (r s) k of
             None \<Rightarrow> Inl (MemoryFault, s)
           | Some rk \<Rightarrow>
               (case rd2 (mat (self s)) i (j - i) of
                  None \<Rightarrow> Inl (MemoryFault, s)
                | Some m \<Rightarrow>
                    (case wr2 (mat (self s)) i (j - i) (m - a * rk) of
                       None \<Rightarrow> Inl (MemoryFault, s)
                     | Some m' \<Rightarrow> Inr (s\<lparr>self := (self s)\<lparr>mat := m'\<rparr>\<rparr>)))))"

text \<open>The body of \<^verbatim>\<open>for (int j=i+1; j<upb; ++j)\<close>, lines 459 to 474.\<close>

definition offdiag_body ::
  "int \<Rightarrow> 'a::{minus,times,inverse,abs,ord,numeral} \<Rightarrow> int \<Rightarrow> 'a frame \<Rightarrow> (error \<times> 'a frame) + 'a frame" where
  "offdiag_body i dd j s =
     (case rd2 (mat (self s)) i (j - i) of
        None \<Rightarrow> Inl (MemoryFault, s)
      | Some m0 \<Rightarrow>
          (case rd (lwbIdx s) i of
             None \<Rightarrow> Inl (MemoryFault, s)
           | Some li \<Rightarrow>
               (case rd (lwbIdx s) j of
                  None \<Rightarrow> Inl (MemoryFault, s)
                | Some lj \<Rightarrow>
                    (case for_loop (max li lj) i (elim_body i j) s of
                       Inl e \<Rightarrow> Inl e
                     | Inr s1 \<Rightarrow>
                         (case rd2 (mat (self s1)) i (j - i) of
                            None \<Rightarrow> Inl (MemoryFault, s1)
                          | Some m1 \<Rightarrow>
                              (case wr2 (mat (self s1)) i (j - i) (m1 / dd) of
                                 None \<Rightarrow> Inl (MemoryFault, s1)
                               | Some m' \<Rightarrow>
                                   (let s2 = s1\<lparr>self := (self s1)\<lparr>mat := m'\<rparr>\<rparr>
                                    in if \<bar>m1 / dd\<bar> < 1 / 1000000000000 then
                                         (case rd (lwbIdx s2) j of
                                            None \<Rightarrow> Inl (MemoryFault, s2)
                                          | Some l \<Rightarrow>
                                              if l = i then
                                                (case wr (lwbIdx s2) j (l + 1) of
                                                   None \<Rightarrow> Inl (MemoryFault, s2)
                                                 | Some l' \<Rightarrow> Inr (s2\<lparr>lwbIdx := l'\<rparr>))
                                              else Inr s2)
                                       else Inr s2)))))))"

text \<open>The body of \<^verbatim>\<open>for (int i=0; i<rws; ++i)\<close>, lines 445 to 475: first the diagonal
  entry (lines 446 to 455), which yields the local \<^verbatim>\<open>dd\<close>, then the loop over the rows
  \<^verbatim>\<open>j\<close> of the band (lines 457 to 474).\<close>

definition ldlt_diag ::
  "int \<Rightarrow> 'a::{minus,times} frame \<Rightarrow> (error \<times> 'a frame) + 'a \<times> 'a frame" where
  "ldlt_diag i s =
     (case rd2 (mat (self s)) i 0 of
        None \<Rightarrow> Inl (MemoryFault, s)
      | Some dd0 \<Rightarrow>
          (case rd (lwbIdx s) i of
             None \<Rightarrow> Inl (MemoryFault, s)
           | Some lo \<Rightarrow>
               (case for_loop lo i (diag_body i) (dd0, s) of
                  Inl (e, ds) \<Rightarrow> Inl (e, snd ds)
                | Inr (dd, s1) \<Rightarrow>
                    (case wr2 (mat (self s1)) i 0 dd of
                       None \<Rightarrow> Inl (MemoryFault, s1)
                     | Some m' \<Rightarrow> Inr (dd, s1\<lparr>self := (self s1)\<lparr>mat := m'\<rparr>\<rparr>)))))"

definition ldlt_row ::
  "int \<Rightarrow> 'a::{minus,times,inverse,abs,ord,numeral} frame \<Rightarrow> (error \<times> 'a frame) + 'a frame" where
  "ldlt_row i s =
     (case ldlt_diag i s of
        Inl e \<Rightarrow> Inl e
      | Inr (dd, s2) \<Rightarrow>
          (let upb = min (i + cls (self s2)) (rws (self s2))
           in for_loop (i + 1) upb (offdiag_body i dd) s2))"

definition ldlt_factor ::
  "'a::{minus,times,inverse,abs,ord,numeral} frame \<Rightarrow> (error \<times> 'a frame) + 'a frame" where
  "ldlt_factor s0 =
     (case ldlt_init s0 of
        Inl e \<Rightarrow> Inl e
      | Inr s1 \<Rightarrow> for_loop 0 (rws (self s1)) ldlt_row s1)"

subsection \<open>solveLDLT(Vector&)\<close>

text \<open>\<^verbatim>\<open>rhs[i] -= mat[a][b] * rhs[j]\<close> (lines 478 and 486) and \<^verbatim>\<open>rhs[i] /= mat[i][0]\<close>
  (line 481); \<^verbatim>\<open>rhs[...]\<close> is the checked \<^verbatim>\<open>Vector::operator[]\<close>.\<close>

definition rhs_sub ::
  "'a::{minus,times} list list \<Rightarrow> int \<Rightarrow> int \<Rightarrow> int \<Rightarrow> int \<Rightarrow> 'a vector \<Rightarrow> (error \<times> 'a vector) + 'a vector" where
  "rhs_sub m a b i j rhs =
     (case rd2 m a b of
        None \<Rightarrow> Inl (MemoryFault, rhs)
      | Some c \<Rightarrow>
          (case vector_get rhs j of
             Inl e \<Rightarrow> Inl (e, rhs)
           | Inr xj \<Rightarrow>
               (case vector_get rhs i of
                  Inl e \<Rightarrow> Inl (e, rhs)
                | Inr xi \<Rightarrow> vector_set rhs i (xi - c * xj))))"

definition rhs_div ::
  "'a::inverse list list \<Rightarrow> int \<Rightarrow> 'a vector \<Rightarrow> (error \<times> 'a vector) + 'a vector" where
  "rhs_div m i rhs =
     (case rd2 m i 0 of
        None \<Rightarrow> Inl (MemoryFault, rhs)
      | Some d \<Rightarrow>
          (case vector_get rhs i of
             Inl e \<Rightarrow> Inl (e, rhs)
           | Inr xi \<Rightarrow> vector_set rhs i (xi / d)))"

text \<open>Lines 477 to 479, line 481 and lines 483 to 487.\<close>

definition forward_Vector ::
  "'a::{minus,times} frame \<Rightarrow> 'a vector \<Rightarrow> (error \<times> 'a vector) + 'a vector" where
  "forward_Vector s rhs0 =
     for_loop 0 (rws (self s))
       (\<lambda>i rhs. case rd (lwbIdx s) i of
                   None \<Rightarrow> Inl (MemoryFault, rhs)
                 | Some lo \<Rightarrow>
                     for_loop lo i (\<lambda>j. rhs_sub (mat (self s)) j (i - j) i j) rhs)
       rhs0"

definition scale_Vector ::
  "'a::inverse frame \<Rightarrow> 'a vector \<Rightarrow> (error \<times> 'a vector) + 'a vector" where
  "scale_Vector s rhs0 = for_loop 0 (rws (self s)) (rhs_div (mat (self s))) rhs0"

definition back_Vector ::
  "'a::{minus,times} frame \<Rightarrow> 'a vector \<Rightarrow> (error \<times> 'a vector) + 'a vector" where
  "back_Vector s rhs0 =
     for_down (rws (self s) - 1) 0
       (\<lambda>i rhs. let upb = min (i + cls (self s)) (rws (self s))
                 in for_loop (i + 1) upb (\<lambda>j. rhs_sub (mat (self s)) i (j - i) i j) rhs)
       rhs0"

text \<open>\<^verbatim>\<open>Matrix::solveLDLT(Vector& rhs)\<close>, lines 418 to 495. The result is the coefficient
  matrix and the right-hand side as the call leaves them.\<close>

definition solveLDLT_Vector ::
  "(nat \<Rightarrow> int) \<Rightarrow> (nat \<Rightarrow> 'a) \<Rightarrow> 'a::{minus,times,inverse,abs,ord,numeral} matrix \<Rightarrow> 'a vector \<Rightarrow>
     (error \<times> 'a matrix \<times> 'a vector) + 'a matrix \<times> 'a vector" where
  "solveLDLT_Vector gl gr m rhs =
     (if rws m < cls m then Inl (IllegalArgumentException, (m, rhs))
      else if sz rhs \<noteq> rws m then Inl (IllegalArgumentException, (m, rhs))
      else
        (case ldlt_factor (ldlt_scratch gl gr m) of
           Inl (e, s) \<Rightarrow> Inl (e, (self s, rhs))
         | Inr s \<Rightarrow>
             (case forward_Vector s rhs of
                Inl (e, rhs') \<Rightarrow> Inl (e, (self s, rhs'))
              | Inr rhs1 \<Rightarrow>
                  (case scale_Vector s rhs1 of
                     Inl (e, rhs') \<Rightarrow> Inl (e, (self s, rhs'))
                   | Inr rhs2 \<Rightarrow>
                       (case back_Vector s rhs2 of
                          Inl (e, rhs') \<Rightarrow> Inl (e, (self s, rhs'))
                        | Inr rhs3 \<Rightarrow> Inr (self s, rhs3))))))"

subsection \<open>solveLDLT(Matrix&)\<close>

text \<open>\<^verbatim>\<open>for (int k=0; k<rhsColSz; ++k) rhs(i,k) -= m * rhs(j,k);\<close> (lines 576 and 591) and
  \<^verbatim>\<open>for (int j=0; j<rhsColSz; ++j) rhs(i,j) /= d;\<close> (line 582); \<^verbatim>\<open>rhs(i,k)\<close> is the
  unchecked \<^verbatim>\<open>Matrix::operator()\<close>.\<close>

definition row_sub ::
  "'a::{minus,times} \<Rightarrow> int \<Rightarrow> int \<Rightarrow> 'a matrix \<Rightarrow> (error \<times> 'a matrix) + 'a matrix" where
  "row_sub m i j rhs0 =
     for_loop 0 (cls rhs0)
       (\<lambda>k rhs. case rd2 (mat rhs) j k of
                   None \<Rightarrow> Inl (MemoryFault, rhs)
                 | Some xj \<Rightarrow>
                     (case rd2 (mat rhs) i k of
                        None \<Rightarrow> Inl (MemoryFault, rhs)
                      | Some xi \<Rightarrow>
                          (case wr2 (mat rhs) i k (xi - m * xj) of
                             None \<Rightarrow> Inl (MemoryFault, rhs)
                           | Some m' \<Rightarrow> Inr (rhs\<lparr>mat := m'\<rparr>))))
       rhs0"

definition row_div ::
  "'a::inverse \<Rightarrow> int \<Rightarrow> 'a matrix \<Rightarrow> (error \<times> 'a matrix) + 'a matrix" where
  "row_div d i rhs0 =
     for_loop 0 (cls rhs0)
       (\<lambda>j rhs. case rd2 (mat rhs) i j of
                   None \<Rightarrow> Inl (MemoryFault, rhs)
                 | Some xi \<Rightarrow>
                     (case wr2 (mat rhs) i j (xi / d) of
                        None \<Rightarrow> Inl (MemoryFault, rhs)
                      | Some m' \<Rightarrow> Inr (rhs\<lparr>mat := m'\<rparr>)))
       rhs0"

text \<open>Lines 572 to 578, 580 to 583 and 585 to 593.\<close>

definition forward_Matrix ::
  "'a::{minus,times} frame \<Rightarrow> 'a matrix \<Rightarrow> (error \<times> 'a matrix) + 'a matrix" where
  "forward_Matrix s rhs0 =
     for_loop 0 (rws (self s))
       (\<lambda>i rhs. case rd (lwbIdx s) i of
                   None \<Rightarrow> Inl (MemoryFault, rhs)
                 | Some lo \<Rightarrow>
                     for_loop lo i
                       (\<lambda>j rhs. case rd2 (mat (self s)) j (i - j) of
                                   None \<Rightarrow> Inl (MemoryFault, rhs)
                                 | Some m \<Rightarrow> row_sub m i j rhs)
                       rhs)
       rhs0"

definition scale_Matrix ::
  "'a::inverse frame \<Rightarrow> 'a matrix \<Rightarrow> (error \<times> 'a matrix) + 'a matrix" where
  "scale_Matrix s rhs0 =
     for_loop 0 (rws (self s))
       (\<lambda>i rhs. case rd2 (mat (self s)) i 0 of
                   None \<Rightarrow> Inl (MemoryFault, rhs)
                 | Some d \<Rightarrow> row_div d i rhs)
       rhs0"

definition back_Matrix ::
  "'a::{minus,times} frame \<Rightarrow> 'a matrix \<Rightarrow> (error \<times> 'a matrix) + 'a matrix" where
  "back_Matrix s rhs0 =
     for_down (rws (self s) - 1) 0
       (\<lambda>i rhs. let upb = min (i + cls (self s)) (rws (self s))
                 in for_loop (i + 1) upb
                      (\<lambda>j rhs. case rd2 (mat (self s)) i (j - i) of
                                  None \<Rightarrow> Inl (MemoryFault, rhs)
                                | Some m \<Rightarrow> row_sub m i j rhs)
                      rhs)
       rhs0"

text \<open>\<^verbatim>\<open>Matrix::solveLDLT(Matrix& rhs)\<close>, lines 516 to 599, for a right-hand side that
  is another object than the coefficient matrix.\<close>

definition solveLDLT_Matrix ::
  "(nat \<Rightarrow> int) \<Rightarrow> (nat \<Rightarrow> 'a) \<Rightarrow> 'a::{minus,times,inverse,abs,ord,numeral} matrix \<Rightarrow> 'a matrix \<Rightarrow>
     (error \<times> 'a matrix \<times> 'a matrix) + 'a matrix \<times> 'a matrix" where
  "solveLDLT_Matrix gl gr m rhs =
     (if rws m < cls m then Inl (IllegalArgumentException, (m, rhs))
      else if rws rhs \<noteq> rws m then Inl (IllegalArgumentException, (m, rhs))
      else
        (case ldlt_factor (ldlt_scratch gl gr m) of
           Inl (e, s) \<Rightarrow> Inl (e, (self s, rhs))
         | Inr s \<Rightarrow>
             (case forward_Matrix s rhs of
                Inl (e, rhs') \<Rightarrow> Inl (e, (self s, rhs'))
              | Inr rhs1 \<Rightarrow>
                  (case scale_Matrix s rhs1 of
                     Inl (e, rhs') \<Rightarrow> Inl (e, (self s, rhs'))
                   | Inr rhs2 \<Rightarrow>
                       (case back_Matrix s rhs2 of
                          Inl (e, rhs') \<Rightarrow> Inl (e, (self s, rhs'))
                        | Inr rhs3 \<Rightarrow> Inr (self s, rhs3))))))"

subsection \<open>What the Vector operations leave behind\<close>

text \<open>A mutating operation leaves the invariant on the vector it was applied to, whether
  it returns or raises; an operation that builds a vector leaves it on the result.\<close>

definition leaves_inv :: "(error \<times> 'a vector) + 'a vector \<Rightarrow> bool" where
  "leaves_inv res = (case res of Inl (e, v) \<Rightarrow> vec_inv v | Inr v \<Rightarrow> vec_inv v)"

definition yields_inv :: "error + 'a vector \<Rightarrow> bool" where
  "yields_inv res = (case res of Inl e \<Rightarrow> True | Inr v \<Rightarrow> vec_inv v)"


subsection \<open>What the loops compute\<close>

text \<open>The functions below say what the loops of the solver compute when no access
  faults: the same operations in the same order, as folds over the index ranges. They
  serve the proofs; the properties are stated on the functions above.\<close>

definition ent :: "'a list list \<Rightarrow> int \<Rightarrow> int \<Rightarrow> 'a" where
  "ent L i c = L ! nat i ! nat c"

definition put :: "'a list list \<Rightarrow> int \<Rightarrow> int \<Rightarrow> 'a \<Rightarrow> 'a list list" where
  "put L i c x = L[nat i := (L ! nat i)[nat c := x]]"

definition lwb_init :: "int \<Rightarrow> int \<Rightarrow> int list" where
  "lwb_init rows cols = map (\<lambda>i. if i < cols then 0 else i - cols + 1) [0..rows - 1]"

definition pivot_of :: "'a::{minus,times} list list \<Rightarrow> int list \<Rightarrow> int \<Rightarrow> 'a" where
  "pivot_of L lwb i =
     fold (\<lambda>j dd. dd - (ent L j 0 * ent L j (i - j)) * ent L j (i - j))
       [lwb ! nat i..i - 1] (ent L i 0)"

definition multiplier_of ::
  "'a::{minus,times,inverse} list list \<Rightarrow> int list \<Rightarrow> int \<Rightarrow> int \<Rightarrow> 'a \<Rightarrow> 'a" where
  "multiplier_of L lwb i j d =
     fold (\<lambda>k m. m - ent L k (j - k) * (ent L k 0 * ent L k (i - k)))
       [max (lwb ! nat i) (lwb ! nat j)..i - 1] (ent L i (j - i)) / d"

definition offdiag_step ::
  "int \<Rightarrow> 'a::{minus,times,inverse,abs,ord,numeral} \<Rightarrow> int \<Rightarrow> 'a list list \<times> int list \<Rightarrow>
     'a list list \<times> int list" where
  "offdiag_step i d j Ll =
     (case Ll of (L, lwb) \<Rightarrow>
        (let m = multiplier_of L lwb i j d
         in (put L i (j - i) m,
             if \<bar>m\<bar> < 1 / 1000000000000 \<and> lwb ! nat j = i then lwb[nat j := i + 1] else lwb)))"

definition row_step ::
  "int \<Rightarrow> int \<Rightarrow> int \<Rightarrow> 'a::{minus,times,inverse,abs,ord,numeral} list list \<times> int list \<Rightarrow>
     'a list list \<times> int list" where
  "row_step rows cols i Ll =
     (case Ll of (L, lwb) \<Rightarrow>
        (let d = pivot_of L lwb i
         in fold (offdiag_step i d) [i + 1..min (i + cols) rows - 1] (put L i 0 d, lwb)))"

definition factor_of ::
  "int \<Rightarrow> int \<Rightarrow> 'a::{minus,times,inverse,abs,ord,numeral} list list \<Rightarrow> 'a list list \<times> int list" where
  "factor_of rows cols A = fold (row_step rows cols) [0..rows - 1] (A, lwb_init rows cols)"

text \<open>The state of the factorization pass as the folds see it, and what holds of a frame
  between two steps of the pass.\<close>

definition factors :: "'a frame \<Rightarrow> 'a list list \<times> int list" where
  "factors s = (mat (self s), lwbIdx s)"

definition lwb_inv :: "'a frame \<Rightarrow> bool" where
  "lwb_inv s =
     (\<forall>j \<in> {0..<rws (self s)}.
        case rd (lwbIdx s) j of
          None \<Rightarrow> False
        | Some l \<Rightarrow> max 0 (j - cls (self s) + 1) \<le> l \<and> l \<le> j)"

definition frame_ok :: "int \<Rightarrow> int \<Rightarrow> 'a frame \<Rightarrow> bool" where
  "frame_ok rows cols s =
     (mat_wf (self s) \<and> rws (self s) = rows \<and> cls (self s) = cols \<and>
      int (length (lwbIdx s)) = rows \<and> int (length (r s)) = rows \<and>
      (\<forall>j. 0 \<le> j \<and> j < rows \<longrightarrow>
         max 0 (j - cols + 1) \<le> lwbIdx s ! nat j \<and> lwbIdx s ! nat j \<le> j))"

text \<open>The substitution passes on the cells of a right-hand side vector, and on the rows
  of a right-hand side matrix.\<close>

definition sub_at :: "'a::{minus,times} \<Rightarrow> int \<Rightarrow> int \<Rightarrow> 'a list \<Rightarrow> 'a list" where
  "sub_at c i j x = x[nat i := x ! nat i - c * x ! nat j]"

definition div_at :: "'a::inverse \<Rightarrow> int \<Rightarrow> 'a list \<Rightarrow> 'a list" where
  "div_at d i x = x[nat i := x ! nat i / d]"

definition forward_cells :: "'a::{minus,times} list list \<Rightarrow> int list \<Rightarrow> int \<Rightarrow> 'a list \<Rightarrow> 'a list" where
  "forward_cells L lwb rows =
     fold (\<lambda>i. fold (\<lambda>j. sub_at (ent L j (i - j)) i j) [lwb ! nat i..i - 1]) [0..rows - 1]"

definition scale_cells :: "'a::inverse list list \<Rightarrow> int \<Rightarrow> 'a list \<Rightarrow> 'a list" where
  "scale_cells L rows = fold (\<lambda>i. div_at (ent L i 0) i) [0..rows - 1]"

definition back_cells :: "'a::{minus,times} list list \<Rightarrow> int \<Rightarrow> int \<Rightarrow> 'a list \<Rightarrow> 'a list" where
  "back_cells L rows cols =
     fold (\<lambda>i. fold (\<lambda>j. sub_at (ent L i (j - i)) i j) [i + 1..min (i + cols) rows - 1])
       (rev [0..rows - 1])"

definition row_sub_at :: "'a::{minus,times} \<Rightarrow> int \<Rightarrow> int \<Rightarrow> 'a list list \<Rightarrow> 'a list list" where
  "row_sub_at c i j X = X[nat i := map2 (\<lambda>xi xj. xi - c * xj) (X ! nat i) (X ! nat j)]"

definition row_div_at :: "'a::inverse \<Rightarrow> int \<Rightarrow> 'a list list \<Rightarrow> 'a list list" where
  "row_div_at d i X = X[nat i := map (\<lambda>xi. xi / d) (X ! nat i)]"

definition forward_rows ::
  "'a::{minus,times} list list \<Rightarrow> int list \<Rightarrow> int \<Rightarrow> 'a list list \<Rightarrow> 'a list list" where
  "forward_rows L lwb rows =
     fold (\<lambda>i. fold (\<lambda>j. row_sub_at (ent L j (i - j)) i j) [lwb ! nat i..i - 1]) [0..rows - 1]"

definition scale_rows :: "'a::inverse list list \<Rightarrow> int \<Rightarrow> 'a list list \<Rightarrow> 'a list list" where
  "scale_rows L rows = fold (\<lambda>i. row_div_at (ent L i 0) i) [0..rows - 1]"

definition back_rows ::
  "'a::{minus,times} list list \<Rightarrow> int \<Rightarrow> int \<Rightarrow> 'a list list \<Rightarrow> 'a list list" where
  "back_rows L rows cols =
     fold (\<lambda>i. fold (\<lambda>j. row_sub_at (ent L i (j - i)) i j) [i + 1..min (i + cols) rows - 1])
       (rev [0..rows - 1])"

text \<open>A vector that holds column \<open>c\<close> of a right-hand side matrix, as the accessors of
  the two classes read them, and the same on the cells and rows.\<close>

definition holds_column :: "'a vector \<Rightarrow> 'a matrix \<Rightarrow> int \<Rightarrow> bool" where
  "holds_column v R c =
     (sz v = rws R \<and>
      (\<forall>i \<in> {0..<rws R}.
         case rd2 (mat R) i c of None \<Rightarrow> False | Some x \<Rightarrow> vector_get v i = Inr x))"

definition column_rel :: "int \<Rightarrow> int \<Rightarrow> int \<Rightarrow> 'a list \<Rightarrow> 'a list list \<Rightarrow> bool" where
  "column_rel rows rc c x X =
     (rows \<le> int (length x) \<and> int (length X) = rows \<and>
      (\<forall>row \<in> set X. int (length row) = rc) \<and> 0 \<le> c \<and> c < rc \<and>
      (\<forall>i. 0 \<le> i \<and> i < rows \<longrightarrow> x ! nat i = X ! nat i ! nat c))"
subsection \<open>The factorization as the specification words it\<close>

text \<open>Steps 1, 2a and 2b of the algorithm of the specification. \<open>A\<close> is the matrix as
  the caller passed it, \<open>L\<close> the storage with the factors computed so far (\<open>D\<close> in
  physical column 0), \<open>lwb\<close> the lower bounds; \<open>ent\<close> reads a physical column, so that
  \<open>A[i][i]\<close> is \<open>ent A i 0\<close> and \<open>A[i][j]\<close> is \<open>ent A i (j - i)\<close>.

  The formulas are read in the arithmetic of the program, of which nothing is assumed
  but that a product does not depend on the order of its factors. In such an arithmetic
  \<open>a - \<Sum> ts\<close> has a value only once the order of the operations is fixed: the terms are
  taken off \<open>a\<close> one after the other, in the order of the index (\<open>minus_sum\<close>). Where
  addition and subtraction obey the laws of a group, that is \<open>a - sum_list ts\<close>.\<close>

definition minus_sum :: "'a::minus \<Rightarrow> 'a list \<Rightarrow> 'a" where
  "minus_sum a ts = foldl (\<lambda>acc t. acc - t) a ts"

definition spec_lwb :: "int \<Rightarrow> int \<Rightarrow> int" where
  "spec_lwb cols i = (if i < cols then 0 else i - cols + 1)"

definition spec_r :: "'a::times list list \<Rightarrow> int \<Rightarrow> int \<Rightarrow> 'a" where
  "spec_r L i j = ent L j (i - j) * ent L j 0"

definition spec_diag ::
  "'a::{minus,times} list list \<Rightarrow> 'a list list \<Rightarrow> int list \<Rightarrow> int \<Rightarrow> 'a" where
  "spec_diag A L lwb i =
     minus_sum (ent A i 0) (map (\<lambda>j. ent L j (i - j) * spec_r L i j) [lwb ! nat i..i - 1])"

definition spec_multiplier ::
  "'a::{minus,times,inverse} list list \<Rightarrow> 'a list list \<Rightarrow> int list \<Rightarrow> int \<Rightarrow> int \<Rightarrow> 'a \<Rightarrow> 'a" where
  "spec_multiplier A L lwb i j d =
     minus_sum (ent A i (j - i))
       (map (\<lambda>k. ent L k (j - k) * spec_r L i k) [max (lwb ! nat i) (lwb ! nat j)..i - 1]) / d"

definition spec_band_step ::
  "'a::{minus,times,inverse,abs,ord,numeral} list list \<Rightarrow> int \<Rightarrow> 'a \<Rightarrow> int \<Rightarrow>
     'a list list \<times> int list \<Rightarrow> 'a list list \<times> int list" where
  "spec_band_step A i d j Ll =
     (case Ll of (L, lwb) \<Rightarrow>
        (let m = spec_multiplier A L lwb i j d
         in (put L i (j - i) m,
             if \<bar>m\<bar> < 1 / 1000000000000 \<and> lwb ! nat j = i then lwb[nat j := i + 1] else lwb)))"

definition spec_row_step ::
  "'a::{minus,times,inverse,abs,ord,numeral} list list \<Rightarrow> int \<Rightarrow> int \<Rightarrow> int \<Rightarrow>
     'a list list \<times> int list \<Rightarrow> 'a list list \<times> int list" where
  "spec_row_step A rows cols i Ll =
     (case Ll of (L, lwb) \<Rightarrow>
        (let d = spec_diag A L lwb i
         in fold (spec_band_step A i d) [i + 1..min (i + cols) rows - 1] (put L i 0 d, lwb)))"

definition spec_factor ::
  "int \<Rightarrow> int \<Rightarrow> 'a::{minus,times,inverse,abs,ord,numeral} list list \<Rightarrow> 'a list list \<times> int list" where
  "spec_factor rows cols A =
     fold (spec_row_step A rows cols) [0..rows - 1] (A, map (spec_lwb cols) [0..rows - 1])"

section \<open>Properties\<close>

subsection \<open>Raw arrays and loops\<close>


lemma sdiv2_nonneg: "0 \<le> (c::int) \<Longrightarrow> c sdiv 2 = c div 2"
  by (simp add: signed_divide_int_def sgn_if)




lemma for_loop_empty: "hi \<le> lo \<Longrightarrow> for_loop lo hi body s = Inr s"
  by (simp add: for_loop.simps)

lemma for_loop_step:
  "lo < hi \<Longrightarrow> for_loop lo hi body s =
     (case body lo s of Inl e \<Rightarrow> Inl e | Inr s' \<Rightarrow> for_loop (lo + 1) hi body s')"
  by (subst for_loop.simps) simp

lemma for_loop_rule:
  assumes "I lo s"
    and "\<And>i s. lo \<le> i \<Longrightarrow> i < hi \<Longrightarrow> I i s \<Longrightarrow> \<exists>s'. body i s = Inr s' \<and> I (i + 1) s'"
  shows "\<exists>s'. for_loop lo hi body s = Inr s' \<and> I (max lo hi) s'"
  using assms
proof (induction lo hi body s rule: for_loop.induct)
  case (1 i hi body s)
  show ?case
  proof (cases "i < hi")
    case False
    then show ?thesis using "1.prems"(1) by (simp add: for_loop_empty max_def)
  next
    case True
    from "1.prems"(2)[OF _ True "1.prems"(1)] obtain s1 where
      b: "body i s = Inr s1" and i1: "I (i + 1) s1" by auto
    have "\<exists>s'. for_loop (i + 1) hi body s1 = Inr s' \<and> I (max (i + 1) hi) s'"
      by (rule "1.IH"[OF True b i1]) (use "1.prems"(2) in auto)
    then show ?thesis using True b by (simp add: for_loop_step max_def)
  qed
qed

lemma setSize_inv: "vec_inv v \<Longrightarrow> leaves_inv (setSize nw v n p z)"
  by (auto simp: leaves_inv_def setSize_def vec_inv_def new_array_def split: option.splits sum.splits if_splits)

lemma Vector_inv: "yields_inv (Vector nw n z)"
  by (auto simp: yields_inv_def Vector_def vec_inv_def new_array_def split: option.splits sum.splits if_splits)

lemma Vector_copy_inv: "yields_inv (Vector_copy nw cp)"
  by (auto simp: yields_inv_def Vector_copy_def vec_inv_def new_array_def split: option.splits sum.splits if_splits)

lemma Vector_assign_inv: "vec_inv v \<Longrightarrow> leaves_inv (Vector_assign nw v src)"
  using setSize_inv[of v nw "sz src" False False]
  by (auto simp: leaves_inv_def Vector_assign_def vec_inv_def split: option.splits sum.splits)

lemma clear_inv: "vec_inv v \<Longrightarrow> leaves_inv (clear v)"
  by (auto simp: leaves_inv_def clear_def vec_inv_def split: option.splits)

lemma vector_set_inv: "vec_inv v \<Longrightarrow> leaves_inv (vector_set v i x)"
  by (auto simp: leaves_inv_def vector_set_def vec_inv_def split: option.splits)

lemma vector_binop_inv: "yields_inv (vector_binop f nw u v)"
  using Vector_inv[of nw "sz u" False]
  by (auto simp: yields_inv_def vector_binop_def vec_inv_def split: option.splits sum.splits prod.splits)

lemma vector_binop_assign_inv: "vec_inv u \<Longrightarrow> leaves_inv (vector_binop_assign f u v)"
  by (auto simp: leaves_inv_def vector_binop_assign_def vec_inv_def split: option.splits sum.splits prod.splits)

lemma vector_scale_inv: "yields_inv (vector_scale nw u fct)"
  using Vector_inv[of nw "sz u" False]
  by (auto simp: yields_inv_def vector_scale_def vec_inv_def split: option.splits sum.splits prod.splits)

lemma vector_scale_assign_inv: "vec_inv u \<Longrightarrow> leaves_inv (vector_scale_assign u fct)"
  by (auto simp: leaves_inv_def vector_scale_assign_def vec_inv_def split: option.splits sum.splits prod.splits)

lemma sum_squares_ok:
  assumes "n \<le> int (length a)"
  shows "\<exists>l. sum_squares a n = Inr l"
proof -
  have "\<exists>s'. for_loop 0 n (\<lambda>i len. case rd a i of None \<Rightarrow> Inl (MemoryFault, len)
                 | Some val \<Rightarrow> Inr (len + val * val)) 0 = Inr s' \<and> True"
    by (rule for_loop_rule[where I = "\<lambda>_ _. True"]) (use assms in \<open>auto simp: rd_def\<close>)
  then show ?thesis by (simp add: sum_squares_def)
qed







subsection \<open>Vector::setSize\<close>

text \<open>Claim C5. On a vector of size \<open>s\<close>, \<open>setSize newSz\<close> with \<open>preserve\<close> and
  \<open>zeroInit\<close> set and \<open>0 \<le> newSz\<close> returns a vector of size \<open>newSz\<close> whose entries
  below \<open>min newSz s\<close> are the entries the vector had, and whose entries from \<open>s\<close> up to
  \<open>newSz\<close> are zero. The entries are read with the checked \<^verbatim>\<open>operator[]\<close>.\<close>

theorem setSize_preserve_zero:
  fixes v :: "'a::zero vector"
  assumes wf: "vec_wf v" and n: "0 \<le> newSz"
  shows "\<exists>v'. setSize nw v newSz True True = Inr v' \<and> vec_wf v' \<and> sz v' = newSz \<and>
           (\<forall>i. 0 \<le> i \<and> i < min newSz (sz v) \<longrightarrow>
                  vector_get v' i = vector_get v i \<and> vector_get v i = Inr (mem (va v) ! nat i)) \<and>
           (\<forall>i. sz v \<le> i \<and> i < newSz \<longrightarrow> vector_get v' i = Inr 0)"
  using assms
  apply (cases "va v")
  apply (auto simp: setSize_def vec_wf_def vec_inv_def sdiv2_nonneg mem_def store_def new_array_def vector_get_def rd_def
      memset0_def memmove_cells_def nth_append split: option.splits if_splits)
  done

theorem setSize_preserve_zero_witness:
  "vec_wf \<lparr>va = Some \<lparr>addr = 1, cells = [5, 6, 7 :: int]\<rparr>, sz = 3, cap = 3\<rparr> \<and> (0::int) \<le> 5 \<and>
   (\<exists>v'. setSize \<lparr>fresh_addr = 2, garbage = int\<rparr>
             \<lparr>va = Some \<lparr>addr = 1, cells = [5, 6, 7 :: int]\<rparr>, sz = 3, cap = 3\<rparr> 5 True True = Inr v' \<and>
          sz v' = 5 \<and> vector_get v' 1 = Inr 6 \<and> vector_get v' 4 = Inr 0)"
proof -
  have h: "vec_wf \<lparr>va = Some \<lparr>addr = 1, cells = [5, 6, 7 :: int]\<rparr>, sz = 3, cap = 3\<rparr>"
    by (simp add: vec_wf_def vec_inv_def mem_def)
  have n: "(0::int) \<le> 5" by simp
  from setSize_preserve_zero[OF h n, of "\<lparr>fresh_addr = 2, garbage = int\<rparr>"]
  obtain v' where v': "setSize \<lparr>fresh_addr = 2, garbage = int\<rparr>
             \<lparr>va = Some \<lparr>addr = 1, cells = [5, 6, 7 :: int]\<rparr>, sz = 3, cap = 3\<rparr> 5 True True = Inr v'"
     "sz v' = 5"
     and a: "\<forall>i. 0 \<le> i \<and> i < min 5 (sz \<lparr>va = Some \<lparr>addr = 1, cells = [5, 6, 7 :: int]\<rparr>, sz = 3, cap = 3\<rparr>) \<longrightarrow>
                  vector_get v' i = vector_get \<lparr>va = Some \<lparr>addr = 1, cells = [5, 6, 7 :: int]\<rparr>, sz = 3, cap = 3\<rparr> i \<and> 
                  vector_get \<lparr>va = Some \<lparr>addr = 1, cells = [5, 6, 7 :: int]\<rparr>, sz = 3, cap = 3\<rparr> i = Inr (mem (va \<lparr>va = Some \<lparr>addr = 1, cells = [5, 6, 7 :: int]\<rparr>, sz = 3, cap = 3\<rparr>) ! nat i)"
     and b: "\<forall>i. sz \<lparr>va = Some \<lparr>addr = 1, cells = [5, 6, 7 :: int]\<rparr>, sz = 3, cap = 3\<rparr> \<le> i \<and> i < 5 \<longrightarrow> vector_get v' i = Inr 0"
    by blast
  have "vector_get v' 1 = Inr 6" using a[rule_format, of 1] by (simp add: mem_def)
  moreover have "vector_get v' 4 = Inr 0" using b[rule_format, of 4] by simp
  ultimately show ?thesis using h v' by simp
qed



subsection \<open>The invariant of Vector\<close>

text \<open>Every operation of the public interface that builds or changes a vector leaves
  \<open>0 \<le> sz \<and> sz \<le> cap\<close> on it, on the paths that raise as well: the two public
  constructors, the assignment, \<open>setSize\<close> with any flags, \<open>clear\<close>, a write through
  \<^verbatim>\<open>operator[]\<close>, and the arithmetic operators. The \<^verbatim>\<open>const\<close> operations that return a
  \<^verbatim>\<open>double\<close> (\<open>vector_get\<close>, \<open>vector_dot\<close>, \<open>len\<close>, \<open>len_dims\<close>) build and change
  no vector.\<close>

lemma public_operations_inv:
  assumes "vec_inv v"
  shows "yields_inv (Vector nw n z) \<and> yields_inv (Vector_copy nw v) \<and>
         leaves_inv (Vector_assign nw v src) \<and> leaves_inv (setSize nw v n p z) \<and>
         leaves_inv (clear v) \<and> leaves_inv (vector_set v i x) \<and>
         yields_inv (vector_plus nw v u) \<and> yields_inv (vector_minus nw v u) \<and>
         leaves_inv (vector_plus_assign v u) \<and> leaves_inv (vector_minus_assign v u) \<and>
         yields_inv (vector_scale nw v fct) \<and> leaves_inv (vector_scale_assign v fct)"
  using assms
  by (simp add: setSize_inv Vector_inv Vector_copy_inv Vector_assign_inv clear_inv vector_set_inv
      vector_binop_inv vector_binop_assign_inv vector_scale_inv vector_scale_assign_inv
      vector_plus_def vector_minus_def vector_plus_assign_def vector_minus_assign_def)

text \<open>The private constructor establishes the invariant exactly when the length it is
  given is not negative, whether the array is \<^verbatim>\<open>NULL\<close> or not.\<close>

lemma Vector_arr_inv: "vec_inv (Vector_arr arr n) \<longleftrightarrow> 0 \<le> n"
  by (simp add: Vector_arr_def vec_inv_def)


subsection \<open>Vector::len(int)\<close>

text \<open>Claim C9. \<open>len_dims v dims\<close> raises \<open>IllegalArgumentException\<close> exactly when
  \<open>dims > sz v\<close>; otherwise it returns a value, and for \<open>dims \<le> 0\<close> that value is 0.\<close>

theorem len_dims_errors:
  assumes "vec_wf v"
  shows "(len_dims v dims = Inl IllegalArgumentException \<longleftrightarrow> dims > sz v) \<and>
         (dims \<le> sz v \<longrightarrow> (\<exists>x. len_dims v dims = Inr x)) \<and>
         (dims \<le> 0 \<longrightarrow> len_dims v dims = Inr 0)"
proof (cases "dims > sz v")
  case True
  moreover have "0 \<le> sz v" using assms by (simp add: vec_wf_def vec_inv_def)
  ultimately show ?thesis by (simp add: len_dims_def)
next
  case False
  have "dims \<le> int (length (mem (va v)))"
    using assms False by (auto simp: vec_wf_def vec_inv_def)
  from sum_squares_ok[OF this] obtain l where l: "sum_squares (mem (va v)) dims = Inr l" ..
  have "dims \<le> 0 \<Longrightarrow> l = 0"
    using l by (simp add: sum_squares_def for_loop_empty)
  then show ?thesis using False l by (auto simp: len_dims_def)
qed

theorem len_dims_errors_witness:
  "vec_wf \<lparr>va = Some \<lparr>addr = 1, cells = [3, 4 :: real]\<rparr>, sz = 2, cap = 2\<rparr> \<and>
   len_dims \<lparr>va = Some \<lparr>addr = 1, cells = [3, 4 :: real]\<rparr>, sz = 2, cap = 2\<rparr> 3 = Inl IllegalArgumentException \<and>
   len_dims \<lparr>va = Some \<lparr>addr = 1, cells = [3, 4 :: real]\<rparr>, sz = 2, cap = 2\<rparr> (- 1) = Inr 0"
proof -
  have h: "vec_wf \<lparr>va = Some \<lparr>addr = 1, cells = [3, 4 :: real]\<rparr>, sz = 2, cap = 2\<rparr>"
    by (simp add: vec_wf_def vec_inv_def mem_def)
  show ?thesis
    using h len_dims_errors[OF h, of 3] len_dims_errors[OF h, of "- 1"] by simp
qed

subsection \<open>Matrix::transpose\<close>

lemma rd_nth: "0 \<le> i \<Longrightarrow> i < int (length xs) \<Longrightarrow> rd xs i = Some (xs ! nat i)"
  by (simp add: rd_def)

lemma wr_upd: "0 \<le> i \<Longrightarrow> i < int (length xs) \<Longrightarrow> wr xs i x = Some (xs[nat i := x])"
  by (simp add: wr_def)

lemma rd2_nth:
  "0 \<le> i \<Longrightarrow> i < int (length m) \<Longrightarrow> 0 \<le> c \<Longrightarrow> c < int (length (m ! nat i)) \<Longrightarrow>
   rd2 m i c = Some (m ! nat i ! nat c)"
  by (simp add: rd2_def rd_nth)

lemma wr2_upd:
  "0 \<le> i \<Longrightarrow> i < int (length m) \<Longrightarrow> 0 \<le> c \<Longrightarrow> c < int (length (m ! nat i)) \<Longrightarrow>
   wr2 m i c x = Some (m[nat i := (m ! nat i)[nat c := x]])"
  by (simp add: wr2_def rd_nth wr_upd)

lemma mat_wfI:
  "0 \<le> rws m \<Longrightarrow> 0 \<le> cls m \<Longrightarrow> int (length (mat m)) = rws m \<Longrightarrow>
   (\<And>row. row \<in> set (mat m) \<Longrightarrow> int (length row) = cls m) \<Longrightarrow> mat_wf m"
  unfolding mat_wf_def by blast

lemma mat_wf_dims: "mat_wf m \<Longrightarrow> 0 \<le> rws m \<and> 0 \<le> cls m \<and> int (length (mat m)) = rws m"
  unfolding mat_wf_def by blast

lemma mat_wf_row: "mat_wf m \<Longrightarrow> k < length (mat m) \<Longrightarrow> int (length (mat m ! k)) = cls m"
  unfolding mat_wf_def using nth_mem by blast

lemma mat_wf_update:
  assumes "mat_wf m" "k < length (mat m)"
  shows "mat_wf (m\<lparr>mat := (mat m)[k := (mat m ! k)[c := x]]\<rparr>)"
proof (rule mat_wfI)
  fix row assume "row \<in> set (mat (m\<lparr>mat := (mat m)[k := (mat m ! k)[c := x]]\<rparr>))"
  then have "row \<in> set ((mat m)[k := (mat m ! k)[c := x]])" by simp
  then have "row \<in> insert ((mat m ! k)[c := x]) (set (mat m))"
    using set_update_subset_insert[of "mat m" k "(mat m ! k)[c := x]"] by (rule rev_subsetD)
  then have "row = (mat m ! k)[c := x] \<or> row \<in> set (mat m)" by blast
  then have "int (length row) = cls m"
  proof
    assume "row = (mat m ! k)[c := x]"
    then show ?thesis using mat_wf_row[OF assms] by simp
  next
    assume "row \<in> set (mat m)"
    then show ?thesis using assms(1) unfolding mat_wf_def by blast
  qed
  then show "int (length row) = cls (m\<lparr>mat := (mat m)[k := (mat m ! k)[c := x]]\<rparr>)" by simp
qed (use mat_wf_dims[OF assms(1)] in simp_all)

lemma int32_id: "0 \<le> x \<Longrightarrow> x \<le> 2147483647 \<Longrightarrow> int32 x = x"
  by (simp add: int32_def)

lemma alloc_row_length:
  assumes "i < n"
  shows "length (take c (drop (i * c) (map f [0..<n * c]))) = c"
proof -
  have "(i + 1) * c \<le> n * c" using assms by (intro mult_le_mono1) simp
  then have "i * c + c \<le> n * c" by simp
  then show ?thesis by simp
qed

lemma alloc_ok:
  assumes "0 \<le> rows" "0 \<le> cols" "rows * cols \<le> 2147483647"
  shows "\<exists>t. alloc g m rows cols z = Inr t \<and> mat_wf t \<and> rws t = rows \<and> cls t = cols"
proof -
  have p: "0 \<le> rows * cols" using assms by simp
  have w: "int32 (rows * cols) = rows * cols" using p assms(3) by (rule int32_id)
  have "\<not> rows * cols < 0" using p by linarith
  moreover have "\<not> rows < 0" using assms(1) by linarith
  ultimately have n: "(rows < 0 \<or> rows * cols < 0) = False" by blast
  have nn: "nat (rows * cols) = nat rows * nat cols" using assms by (simp add: nat_mult_distrib)
  let ?f = "\<lambda>k. if z then 0 else g k"
  let ?t = "\<lparr>mat = map (\<lambda>i. take (nat cols) (drop (i * nat cols) (map ?f [0..<nat rows * nat cols])))
                          [0..<nat rows], rws = rows, cls = cols\<rparr>"
  have "alloc g m rows cols z = Inr ?t" unfolding alloc_def w n nn by (simp add: Let_def)
  moreover have "mat_wf ?t"
  proof (rule mat_wfI)
    fix row assume "row \<in> set (mat ?t)"
    then obtain i where i: "i < nat rows"
      and row: "row = take (nat cols) (drop (i * nat cols) (map ?f [0..<nat rows * nat cols]))"
      by auto
    have "length row = nat cols" unfolding row using i by (rule alloc_row_length)
    then show "int (length row) = cls ?t" using assms(2) by simp
  qed (use assms in simp_all)
  ultimately show ?thesis by simp
qed

text \<open>What the two loops of transpose establish.\<close>

lemma transpose_inner:
  assumes A: "mat_wf A" and i: "0 \<le> i" "i < rws A"
    and t: "mat_wf t" "rws t = cls A" "cls t = rws A"
    and prev: "\<forall>a b. a < nat i \<and> b < nat (cls A) \<longrightarrow> mat t ! b ! a = mat A ! a ! b"
  shows "\<exists>t'. for_loop 0 (cls A)
            (\<lambda>j t. case rd (mat A ! nat i) j of
                      None \<Rightarrow> Inl (MemoryFault, t)
                    | Some x \<Rightarrow>
                        (case wr2 (mat t) j i x of
                           None \<Rightarrow> Inl (MemoryFault, t)
                         | Some m' \<Rightarrow> Inr (t\<lparr>mat := m'\<rparr>))) t = Inr t' \<and>
          mat_wf t' \<and> rws t' = cls A \<and> cls t' = rws A \<and>
          (\<forall>a b. a < nat (i + 1) \<and> b < nat (cls A) \<longrightarrow> mat t' ! b ! a = mat A ! a ! b)"
proof -
  let ?body = "\<lambda>j t. case rd (mat A ! nat i) j of
                      None \<Rightarrow> Inl (MemoryFault, t)
                    | Some x \<Rightarrow>
                        (case wr2 (mat t) j i x of
                           None \<Rightarrow> Inl (MemoryFault, t)
                         | Some m' \<Rightarrow> Inr (t\<lparr>mat := m'\<rparr>))"
  let ?I = "\<lambda>j t'. mat_wf t' \<and> rws t' = cls A \<and> cls t' = rws A \<and>
          (\<forall>a b. a < nat i \<and> b < nat (cls A) \<longrightarrow> mat t' ! b ! a = mat A ! a ! b) \<and>
          (\<forall>b. b < nat j \<longrightarrow> mat t' ! b ! nat i = mat A ! nat i ! b)"
  have lenA: "int (length (mat A)) = rws A" "0 \<le> cls A" using mat_wf_dims[OF A] by simp_all
  have rowA: "int (length (mat A ! nat i)) = cls A"
    using mat_wf_row[OF A, of "nat i"] i lenA by simp
  have "\<exists>t'. for_loop 0 (cls A) ?body t = Inr t' \<and> ?I (max 0 (cls A)) t'"
  proof (rule for_loop_rule[where I = ?I])
    show "?I 0 t" using t prev by simp
  next
    fix j s
    assume j: "0 \<le> j" "j < cls A" and I: "?I j s"
    have wfs: "mat_wf s" and shp: "rws s = cls A" "cls s = rws A" using I by blast+
    have lens: "int (length (mat s)) = cls A" using mat_wf_dims[OF wfs] shp by simp
    have rows: "int (length (mat s ! nat j)) = rws A"
      using mat_wf_row[OF wfs, of "nat j"] j lens shp by simp
    have r: "rd (mat A ! nat i) j = Some (mat A ! nat i ! nat j)"
      using j rowA by (simp add: rd_nth)
    have w: "wr2 (mat s) j i (mat A ! nat i ! nat j) =
       Some ((mat s)[nat j := (mat s ! nat j)[nat i := mat A ! nat i ! nat j]])"
      using j i lens rows by (simp add: wr2_upd)
    let ?s' = "s\<lparr>mat := (mat s)[nat j := (mat s ! nat j)[nat i := mat A ! nat i ! nat j]]\<rparr>"
    have b: "?body j s = Inr ?s'" by (simp add: r w)
    have wf': "mat_wf ?s'" using mat_wf_update[OF wfs, of "nat j"] j lens by simp
    have nj: "nat j < length (mat s)" "nat i < length (mat s ! nat j)"
      using j i lens rows by auto
    have ms': "mat ?s' = (mat s)[nat j := (mat s ! nat j)[nat i := mat A ! nat i ! nat j]]"
      by simp
    have at_j: "mat ?s' ! nat j = (mat s ! nat j)[nat i := mat A ! nat i ! nat j]"
      unfolding ms' using nj(1) by (rule nth_list_update_eq)
    have at_other: "\<And>b. b \<noteq> nat j \<Longrightarrow> mat ?s' ! b = mat s ! b"
      unfolding ms' by (rule nth_list_update_neq) simp
    have Iold: "\<And>a b. a < nat i \<Longrightarrow> b < nat (cls A) \<Longrightarrow> mat s ! b ! a = mat A ! a ! b"
      and Inew: "\<And>b. b < nat j \<Longrightarrow> mat s ! b ! nat i = mat A ! nat i ! b"
      using I by blast+
    have old: "\<forall>a b. a < nat i \<and> b < nat (cls A) \<longrightarrow> mat ?s' ! b ! a = mat A ! a ! b"
    proof (intro allI impI)
      fix a b assume ab: "a < nat i \<and> b < nat (cls A)"
      show "mat ?s' ! b ! a = mat A ! a ! b"
      proof (cases "b = nat j")
        case True
        have "mat ?s' ! b ! a = mat s ! nat j ! a"
          unfolding True at_j using ab by (simp add: nth_list_update_neq)
        then show ?thesis using Iold[of a b] ab True by simp
      next
        case False
        then show ?thesis using at_other[of b] Iold[of a b] ab by simp
      qed
    qed
    have new: "\<forall>b. b < nat (j + 1) \<longrightarrow> mat ?s' ! b ! nat i = mat A ! nat i ! b"
    proof (intro allI impI)
      fix b assume "b < nat (j + 1)"
      then have "b < nat j \<or> b = nat j" using j by auto
      then show "mat ?s' ! b ! nat i = mat A ! nat i ! b"
      proof
        assume lt: "b < nat j"
        then show ?thesis using at_other[of b] Inew[of b] by simp
      next
        assume eq: "b = nat j"
        show ?thesis unfolding eq at_j using nj(2) by (rule nth_list_update_eq)
      qed
    qed
    have keep: "rws ?s' = cls A" "cls ?s' = rws A" using I by simp_all
    show "\<exists>s'. ?body j s = Inr s' \<and> ?I (j + 1) s'"
      using b wf' old new keep by blast
  qed
  moreover have "max 0 (cls A) = cls A" using lenA by simp
  ultimately obtain t' where t': "for_loop 0 (cls A) ?body t = Inr t'" and It: "?I (cls A) t'"
    by auto
  have Told: "\<And>a b. a < nat i \<Longrightarrow> b < nat (cls A) \<Longrightarrow> mat t' ! b ! a = mat A ! a ! b"
      and Tnew: "\<And>b. b < nat (cls A) \<Longrightarrow> mat t' ! b ! nat i = mat A ! nat i ! b"
    using It by blast+
  have "\<forall>a b. a < nat (i + 1) \<and> b < nat (cls A) \<longrightarrow> mat t' ! b ! a = mat A ! a ! b"
  proof (intro allI impI)
    fix a b assume ab: "a < nat (i + 1) \<and> b < nat (cls A)"
    then have "a < nat i \<or> a = nat i" using i by auto
    then show "mat t' ! b ! a = mat A ! a ! b" using Told[of a b] Tnew[of b] ab by auto
  qed
  moreover have "mat_wf t'" "rws t' = cls A" "cls t' = rws A" using It by blast+
  ultimately show ?thesis using t' by blast
qed

lemma transpose_ok:
  assumes A: "mat_wf A" and n: "rws A * cls A \<le> 2147483647" and T0: "mat_wf T0"
  shows "\<exists>T. Matrix_transpose g A T0 = Inr T \<and> mat_wf T \<and> rws T = cls A \<and> cls T = rws A \<and>
           (\<forall>a b. a < nat (rws A) \<and> b < nat (cls A) \<longrightarrow> mat T ! b ! a = mat A ! a ! b)"
proof -
  have dA: "0 \<le> rws A" "0 \<le> cls A" "int (length (mat A)) = rws A"
    using mat_wf_dims[OF A] by simp_all
  let ?start = "if rws T0 \<noteq> cls A \<or> cls T0 \<noteq> rws A
                then alloc g T0 (cls A) (rws A) False else Inr T0"
  have "\<exists>t0. ?start = Inr t0 \<and> mat_wf t0 \<and> rws t0 = cls A \<and> cls t0 = rws A"
  proof (cases "rws T0 \<noteq> cls A \<or> cls T0 \<noteq> rws A")
    case True
    have "cls A * rws A \<le> 2147483647" using n by (simp add: mult.commute)
    from alloc_ok[OF dA(2) dA(1) this, of g T0 False] show ?thesis using True by simp
  next
    case False
    then show ?thesis using T0 by simp
  qed
  then obtain t0 where t0: "?start = Inr t0" "mat_wf t0" "rws t0 = cls A" "cls t0 = rws A"
    by blast
  let ?inner = "\<lambda>i row. for_loop 0 (cls A)
            (\<lambda>j t. case rd row j of
                      None \<Rightarrow> Inl (MemoryFault, t)
                    | Some x \<Rightarrow>
                        (case wr2 (mat t) j i x of
                           None \<Rightarrow> Inl (MemoryFault, t)
                         | Some m' \<Rightarrow> Inr (t\<lparr>mat := m'\<rparr>)))"
  let ?body = "\<lambda>i t. case rd (mat A) i of
                      None \<Rightarrow> Inl (MemoryFault, t)
                    | Some row \<Rightarrow> ?inner i row t"
  let ?I = "\<lambda>i t. mat_wf t \<and> rws t = cls A \<and> cls t = rws A \<and>
          (\<forall>a b. a < nat i \<and> b < nat (cls A) \<longrightarrow> mat t ! b ! a = mat A ! a ! b)"
  have "\<exists>T. for_loop 0 (rws A) ?body t0 = Inr T \<and> ?I (max 0 (rws A)) T"
  proof (rule for_loop_rule[where I = ?I])
    show "?I 0 t0" using t0 by simp
  next
    fix i s
    assume i: "0 \<le> i" "i < rws A" and I: "?I i s"
    have rdA: "rd (mat A) i = Some (mat A ! nat i)" using i dA by (simp add: rd_nth)
    have wfs: "mat_wf s" and shp: "rws s = cls A" "cls s = rws A"
      and prev: "\<forall>a b. a < nat i \<and> b < nat (cls A) \<longrightarrow> mat s ! b ! a = mat A ! a ! b"
      using I by blast+
    have "?body i s = ?inner i (mat A ! nat i) s" by (simp add: rdA)
    then show "\<exists>s'. ?body i s = Inr s' \<and> ?I (i + 1) s'"
      using transpose_inner[OF A i wfs shp prev] by simp
  qed
  moreover have "max 0 (rws A) = rws A" using dA by simp
  moreover have "Matrix_transpose g A T0 = for_loop 0 (rws A) ?body t0"
    unfolding Matrix_transpose_def t0(1) by simp
  ultimately show ?thesis by simp
qed

lemma mat_eqI:
  assumes "mat_wf A" "mat_wf C" "rws C = rws A" "cls C = cls A"
    and "\<And>a b. a < nat (rws A) \<Longrightarrow> b < nat (cls A) \<Longrightarrow> mat C ! a ! b = mat A ! a ! b"
  shows "C = A"
proof -
  have dA: "int (length (mat A)) = rws A" and dC: "int (length (mat C)) = rws A"
    using mat_wf_dims[OF assms(1)] mat_wf_dims[OF assms(2)] assms(3) by simp_all
  have "mat C = mat A"
  proof (rule nth_equalityI)
    show "length (mat C) = length (mat A)" using dA dC by simp
  next
    fix a assume a: "a < length (mat C)"
    then have a': "a < length (mat A)" "a < nat (rws A)" using dA dC by simp_all
    show "mat C ! a = mat A ! a"
    proof (rule nth_equalityI)
      show "length (mat C ! a) = length (mat A ! a)"
        using mat_wf_row[OF assms(1) a'(1)] mat_wf_row[OF assms(2) a] assms(4) by simp
    next
      fix b assume "b < length (mat C ! a)"
      then have "b < nat (cls A)" using mat_wf_row[OF assms(2) a] assms(4) by simp
      then show "mat C ! a ! b = mat A ! a ! b" using assms(5) a'(2) by simp
    qed
  qed
  then show ?thesis using assms(3,4) by simp
qed

lemma rd2_wf_nth:
  assumes "mat_wf m" "0 \<le> i" "i < rws m" "0 \<le> c" "c < cls m"
  shows "rd2 (mat m) i c = Some (mat m ! nat i ! nat c)"
proof -
  have l: "int (length (mat m)) = rws m" using mat_wf_dims[OF assms(1)] by simp
  have "int (length (mat m ! nat i)) = cls m"
    using mat_wf_row[OF assms(1), of "nat i"] l assms(2,3) by simp
  then show ?thesis using l assms by (simp add: rd2_nth)
qed

text \<open>Claim C7. For a matrix \<open>A\<close> of any shape (its \<open>rws A * cls A\<close> cells counted by an
  \<^verbatim>\<open>int\<close>, as \<open>alloc\<close> counts them), \<open>A.transpose(B)\<close> returns with \<open>B\<close> a well-formed
  \<open>cls A \<times> rws A\<close> matrix, whatever shape \<open>B\<close> had, whose entry \<open>(j, i)\<close> is the entry
  \<open>(i, j)\<close> of \<open>A\<close>; when the shape of \<open>B\<close> differed, \<open>alloc\<close> gave it a new table of
  \<open>cls A\<close> rows of \<open>rws A\<close> cells, into which the entries were copied. \<open>B.transpose(C)\<close>
  then makes \<open>C\<close> equal to \<open>A\<close>: the same shape and the same entries.\<close>

theorem transpose_twice:
  assumes A: "mat_wf A" and n: "rws A * cls A \<le> 2147483647"
    and B0: "mat_wf B0" and C0: "mat_wf C0"
  shows "\<exists>B. Matrix_transpose g A B0 = Inr B \<and>
              mat_wf B \<and> rws B = cls A \<and> cls B = rws A \<and>
              (\<forall>i j. 0 \<le> i \<and> i < rws A \<and> 0 \<le> j \<and> j < cls A \<longrightarrow>
                 (\<exists>x. rd2 (mat A) i j = Some x \<and> rd2 (mat B) j i = Some x)) \<and>
              (rws B0 \<noteq> cls A \<or> cls B0 \<noteq> rws A \<longrightarrow>
                 (\<exists>B1. alloc g B0 (cls A) (rws A) False = Inr B1 \<and>
                       mat_wf B1 \<and> rws B1 = cls A \<and> cls B1 = rws A \<and>
                       Matrix_transpose g A B1 = Inr B)) \<and>
              Matrix_transpose g' B C0 = Inr A"
proof -
  have dA: "0 \<le> rws A" "0 \<le> cls A" using mat_wf_dims[OF A] by simp_all
  from transpose_ok[OF A n B0, of g] obtain B where
    B: "Matrix_transpose g A B0 = Inr B" "mat_wf B" "rws B = cls A" "cls B = rws A"
    and BA: "\<And>a b. a < nat (rws A) \<Longrightarrow> b < nat (cls A) \<Longrightarrow> mat B ! b ! a = mat A ! a ! b"
    by blast
  have nB: "rws B * cls B \<le> 2147483647" using n B(3,4) by (simp add: mult.commute)
  from transpose_ok[OF B(2) nB C0, of g'] obtain C where
    C: "Matrix_transpose g' B C0 = Inr C" "mat_wf C" "rws C = cls B" "cls C = rws B"
    and CB: "\<And>a b. a < nat (rws B) \<Longrightarrow> b < nat (cls B) \<Longrightarrow> mat C ! b ! a = mat B ! a ! b"
    by blast
  have "C = A"
  proof (rule mat_eqI[OF A C(2)])
    show "rws C = rws A" "cls C = cls A" using B C by simp_all
  next
    fix a b assume ab: "a < nat (rws A)" "b < nat (cls A)"
    then show "mat C ! a ! b = mat A ! a ! b"
      using CB[of b a] BA[of a b] B(3,4) by simp
  qed
  then have twice: "Matrix_transpose g' B C0 = Inr A" using C(1) by simp
  have entries: "\<forall>i j. 0 \<le> i \<and> i < rws A \<and> 0 \<le> j \<and> j < cls A \<longrightarrow>
                 (\<exists>x. rd2 (mat A) i j = Some x \<and> rd2 (mat B) j i = Some x)"
  proof (intro allI impI)
    fix i j :: int assume h: "0 \<le> i \<and> i < rws A \<and> 0 \<le> j \<and> j < cls A"
    then have ij: "0 \<le> i" "i < rws A" "0 \<le> j" "j < cls A" by simp_all
    have a: "rd2 (mat A) i j = Some (mat A ! nat i ! nat j)" using A ij by (rule rd2_wf_nth)
    have jB: "j < rws B" "i < cls B" using ij B(3,4) by simp_all
    have b: "rd2 (mat B) j i = Some (mat B ! nat j ! nat i)"
      using B(2) ij(3) jB(1) ij(1) jB(2) by (rule rd2_wf_nth)
    have "mat B ! nat j ! nat i = mat A ! nat i ! nat j" using BA[of "nat i" "nat j"] ij by simp
    then show "\<exists>x. rd2 (mat A) i j = Some x \<and> rd2 (mat B) j i = Some x" using a b by simp
  qed
  have fresh: "rws B0 \<noteq> cls A \<or> cls B0 \<noteq> rws A \<longrightarrow>
                 (\<exists>B1. alloc g B0 (cls A) (rws A) False = Inr B1 \<and>
                       mat_wf B1 \<and> rws B1 = cls A \<and> cls B1 = rws A \<and>
                       Matrix_transpose g A B1 = Inr B)"
  proof
    assume d: "rws B0 \<noteq> cls A \<or> cls B0 \<noteq> rws A"
    have "cls A * rws A \<le> 2147483647" using n by (simp add: mult.commute)
    from alloc_ok[OF dA(2) dA(1) this, of g B0 False] obtain B1 where
      B1: "alloc g B0 (cls A) (rws A) False = Inr B1" "mat_wf B1" "rws B1 = cls A" "cls B1 = rws A"
      by blast
    have same: "(rws B1 \<noteq> cls A \<or> cls B1 \<noteq> rws A) = False" using B1(3,4) by simp
    have d': "(rws B0 \<noteq> cls A \<or> cls B0 \<noteq> rws A) = True" using d by simp
    have "Matrix_transpose g A B1 = Matrix_transpose g A B0"
      unfolding Matrix_transpose_def same d' B1(1) by simp
    then show "\<exists>B1. alloc g B0 (cls A) (rws A) False = Inr B1 \<and>
                       mat_wf B1 \<and> rws B1 = cls A \<and> cls B1 = rws A \<and>
                       Matrix_transpose g A B1 = Inr B"
      using B1 B(1) by simp
  qed
  show ?thesis
    by (intro exI[of _ B] conjI) (rule B(1) B(2) B(3) B(4) entries fresh twice)+
qed

theorem transpose_twice_witness:
  "mat_wf \<lparr>mat = [[1, 2, 3], [4, 5, 6 :: real]], rws = 2, cls = 3\<rparr> \<and>
   mat_wf \<lparr>mat = [[0 :: real]], rws = 1, cls = 1\<rparr> \<and>
   (\<exists>B. Matrix_transpose real \<lparr>mat = [[1, 2, 3], [4, 5, 6]], rws = 2, cls = 3\<rparr>
            \<lparr>mat = [[0]], rws = 1, cls = 1\<rparr> = Inr B \<and> mat_wf B \<and> rws B = 3 \<and> cls B = 2 \<and>
        rd2 (mat B) 2 1 = Some 6 \<and>
        Matrix_transpose real B \<lparr>mat = [[0]], rws = 1, cls = 1\<rparr> =
          Inr \<lparr>mat = [[1, 2, 3], [4, 5, 6]], rws = 2, cls = 3\<rparr>)"
proof -
  let ?A = "\<lparr>mat = [[1, 2, 3], [4, 5, 6 :: real]], rws = 2, cls = 3\<rparr>"
  let ?Z = "\<lparr>mat = [[0 :: real]], rws = 1, cls = 1\<rparr>"
  have a: "mat_wf ?A" by (rule mat_wfI) auto
  have n: "rws ?A * cls ?A \<le> 2147483647" by simp
  have b: "mat_wf ?Z" by (rule mat_wfI) simp_all
  from transpose_twice[OF a n b b, of real real] obtain B where
    B: "Matrix_transpose real ?A ?Z = Inr B" "mat_wf B" "rws B = cls ?A" "cls B = rws ?A"
      "Matrix_transpose real B ?Z = Inr ?A"
    and e: "\<forall>i j. 0 \<le> i \<and> i < rws ?A \<and> 0 \<le> j \<and> j < cls ?A \<longrightarrow>
                 (\<exists>x. rd2 (mat ?A) i j = Some x \<and> rd2 (mat B) j i = Some x)"
    by blast
  have "rd2 (mat B) 2 1 = Some 6" using e[rule_format, of 1 2] by (simp add: rd2_def rd_def)
  then show ?thesis using a b B by simp
qed

subsection \<open>The preconditions of solveLDLT\<close>

lemma for_loop_no_illegal:
  assumes "\<And>i s st. body i s \<noteq> Inl (IllegalArgumentException, st)"
  shows "for_loop lo hi body s \<noteq> Inl (IllegalArgumentException, st)"
  using assms
proof (induction lo hi body s rule: for_loop.induct)
  case (1 i hi body s)
  show ?case
  proof (cases "i < hi")
    case False
    then show ?thesis by (simp add: for_loop_empty)
  next
    case True
    show ?thesis
    proof (cases "body i s")
      case (Inl e)
      moreover have "body i s \<noteq> Inl (IllegalArgumentException, st)" by (rule "1.prems")
      ultimately show ?thesis using True by (auto simp add: for_loop_step)
    next
      case (Inr s')
      then show ?thesis using True "1.IH"[OF True Inr] "1.prems" by (simp add: for_loop_step)
    qed
  qed
qed

lemma for_down_empty: "i < lo \<Longrightarrow> for_down i lo body s = Inr s"
  by (simp add: for_down.simps)

lemma for_down_step:
  "lo \<le> i \<Longrightarrow> for_down i lo body s =
     (case body i s of Inl e \<Rightarrow> Inl e | Inr s' \<Rightarrow> for_down (i - 1) lo body s')"
  by (subst for_down.simps) simp

lemma for_down_no_illegal:
  assumes "\<And>i s st. body i s \<noteq> Inl (IllegalArgumentException, st)"
  shows "for_down hi lo body s \<noteq> Inl (IllegalArgumentException, st)"
  using assms
proof (induction hi lo body s rule: for_down.induct)
  case (1 i lo body s)
  show ?case
  proof (cases "lo \<le> i")
    case False
    then show ?thesis by (simp add: for_down_empty)
  next
    case True
    show ?thesis
    proof (cases "body i s")
      case (Inl e)
      moreover have "body i s \<noteq> Inl (IllegalArgumentException, st)" by (rule "1.prems")
      ultimately show ?thesis using True by (auto simp add: for_down_step)
    next
      case (Inr s')
      then show ?thesis using True "1.IH"[OF True Inr] "1.prems" by (simp add: for_down_step)
    qed
  qed
qed

lemma vector_set_no_illegal: "vector_set v i x \<noteq> Inl (IllegalArgumentException, st)"
  by (simp add: vector_set_def split: option.splits)

lemma rhs_sub_no_illegal: "rhs_sub m a b i j rhs \<noteq> Inl (IllegalArgumentException, st)"
  by (simp add: rhs_sub_def vector_get_def vector_set_no_illegal split: option.splits sum.splits)

lemma rhs_div_no_illegal: "rhs_div m i rhs \<noteq> Inl (IllegalArgumentException, st)"
  by (simp add: rhs_div_def vector_get_def vector_set_no_illegal split: option.splits sum.splits)

lemma forward_Vector_no_illegal: "forward_Vector s rhs \<noteq> Inl (IllegalArgumentException, st)"
  unfolding forward_Vector_def
  by (rule for_loop_no_illegal)
     (simp add: for_loop_no_illegal rhs_sub_no_illegal split: option.splits)

lemma scale_Vector_no_illegal: "scale_Vector s rhs \<noteq> Inl (IllegalArgumentException, st)"
  unfolding scale_Vector_def by (rule for_loop_no_illegal) (rule rhs_div_no_illegal)

lemma back_Vector_no_illegal: "back_Vector s rhs \<noteq> Inl (IllegalArgumentException, st)"
  unfolding back_Vector_def
  by (rule for_down_no_illegal)
     (simp add: for_loop_no_illegal rhs_sub_no_illegal Let_def)

lemma row_sub_no_illegal: "row_sub m i j rhs \<noteq> Inl (IllegalArgumentException, st)"
  unfolding row_sub_def
  by (rule for_loop_no_illegal) (simp split: option.splits)

lemma row_div_no_illegal: "row_div d i rhs \<noteq> Inl (IllegalArgumentException, st)"
  unfolding row_div_def
  by (rule for_loop_no_illegal) (simp split: option.splits)

lemma forward_Matrix_no_illegal: "forward_Matrix s rhs \<noteq> Inl (IllegalArgumentException, st)"
  unfolding forward_Matrix_def
  by (rule for_loop_no_illegal)
     (simp add: for_loop_no_illegal row_sub_no_illegal split: option.splits)

lemma scale_Matrix_no_illegal: "scale_Matrix s rhs \<noteq> Inl (IllegalArgumentException, st)"
  unfolding scale_Matrix_def
  by (rule for_loop_no_illegal) (simp add: row_div_no_illegal split: option.splits)

lemma back_Matrix_no_illegal: "back_Matrix s rhs \<noteq> Inl (IllegalArgumentException, st)"
  unfolding back_Matrix_def
  by (rule for_down_no_illegal)
     (simp add: for_loop_no_illegal row_sub_no_illegal Let_def split: option.splits)

lemma bind_no_illegal:
  assumes "X \<noteq> Inl (IllegalArgumentException, st)"
    and "\<And>s1. Y s1 \<noteq> Inl (IllegalArgumentException, st)"
  shows "(case X of Inl e \<Rightarrow> Inl e | Inr s1 \<Rightarrow> Y s1) \<noteq> Inl (IllegalArgumentException, st)"
  using assms by (cases X) auto

lemma ldlt_init_no_illegal: "ldlt_init s \<noteq> Inl (IllegalArgumentException, st)"
  unfolding ldlt_init_def
proof (rule bind_no_illegal)
  show "for_loop 0 (cls (self s))
             (\<lambda>i s. case wr (lwbIdx s) i 0 of
                       None \<Rightarrow> Inl (MemoryFault, s)
                     | Some l \<Rightarrow> Inr (s\<lparr>lwbIdx := l\<rparr>)) s \<noteq> Inl (IllegalArgumentException, st)"
    by (rule for_loop_no_illegal) (simp split: option.splits)
next
  fix s1 :: "'a frame"
  show "for_loop (cls (self s1)) (rws (self s1))
            (\<lambda>i s. case wr (lwbIdx s) i (i - cls (self s) + 1) of
                      None \<Rightarrow> Inl (MemoryFault, s)
                    | Some l \<Rightarrow> Inr (s\<lparr>lwbIdx := l\<rparr>)) s1 \<noteq> Inl (IllegalArgumentException, st)"
    by (rule for_loop_no_illegal) (simp split: option.splits)
qed

lemma diag_body_no_illegal: "diag_body i j ds \<noteq> Inl (IllegalArgumentException, st)"
  by (simp add: diag_body_def split: option.splits prod.splits)

lemma elim_body_no_illegal: "elim_body i j k s \<noteq> Inl (IllegalArgumentException, st)"
  by (simp add: elim_body_def split: option.splits)

lemma offdiag_body_no_illegal: "offdiag_body i dd j s \<noteq> Inl (IllegalArgumentException, st)"
  by (simp add: offdiag_body_def Let_def for_loop_no_illegal elim_body_no_illegal
      split: option.splits sum.splits)

lemma ldlt_diag_no_illegal: "ldlt_diag i s \<noteq> Inl (IllegalArgumentException, st)"
  by (simp add: ldlt_diag_def for_loop_no_illegal diag_body_no_illegal
      split: option.splits sum.splits prod.splits)

lemma ldlt_row_no_illegal: "ldlt_row i s \<noteq> Inl (IllegalArgumentException, st)"
  by (simp add: ldlt_row_def Let_def for_loop_no_illegal ldlt_diag_no_illegal
      offdiag_body_no_illegal split: sum.splits prod.splits)

lemma ldlt_factor_no_illegal: "ldlt_factor s \<noteq> Inl (IllegalArgumentException, st)"
  unfolding ldlt_factor_def
  by (rule bind_no_illegal) (simp_all add: ldlt_init_no_illegal for_loop_no_illegal ldlt_row_no_illegal)

text \<open>Claim C4. When \<open>rws < cls\<close>, or when the size of the right-hand side vector (the
  row count of the right-hand side matrix) is not \<open>rws\<close>, solveLDLT raises
  \<open>IllegalArgumentException\<close> and leaves the coefficient matrix and the right-hand side
  exactly as they were. When both preconditions hold, the call raises no
  \<open>IllegalArgumentException\<close>, at entry or later.\<close>

theorem solveLDLT_preconditions:
  "(rws m < cls m \<or> sz rhs \<noteq> rws m \<longrightarrow>
      solveLDLT_Vector gl gr m rhs = Inl (IllegalArgumentException, (m, rhs))) \<and>
   (rws m < cls m \<or> rws R \<noteq> rws m \<longrightarrow>
      solveLDLT_Matrix gl gr m R = Inl (IllegalArgumentException, (m, R))) \<and>
   (\<not> rws m < cls m \<and> sz rhs = rws m \<longrightarrow>
      (\<forall>st. solveLDLT_Vector gl gr m rhs \<noteq> Inl (IllegalArgumentException, st))) \<and>
   (\<not> rws m < cls m \<and> rws R = rws m \<longrightarrow>
      (\<forall>st. solveLDLT_Matrix gl gr m R \<noteq> Inl (IllegalArgumentException, st)))"
proof (intro conjI impI allI)
  assume "rws m < cls m \<or> sz rhs \<noteq> rws m"
  then show "solveLDLT_Vector gl gr m rhs = Inl (IllegalArgumentException, (m, rhs))"
    by (auto simp: solveLDLT_Vector_def)
next
  assume "rws m < cls m \<or> rws R \<noteq> rws m"
  then show "solveLDLT_Matrix gl gr m R = Inl (IllegalArgumentException, (m, R))"
    by (auto simp: solveLDLT_Matrix_def)
next
  fix st
  assume "\<not> rws m < cls m \<and> sz rhs = rws m"
  then have "solveLDLT_Vector gl gr m rhs =
        (case ldlt_factor (ldlt_scratch gl gr m) of
           Inl (e, s) \<Rightarrow> Inl (e, (self s, rhs))
         | Inr s \<Rightarrow>
             (case forward_Vector s rhs of
                Inl (e, rhs') \<Rightarrow> Inl (e, (self s, rhs'))
              | Inr rhs1 \<Rightarrow>
                  (case scale_Vector s rhs1 of
                     Inl (e, rhs') \<Rightarrow> Inl (e, (self s, rhs'))
                   | Inr rhs2 \<Rightarrow>
                       (case back_Vector s rhs2 of
                          Inl (e, rhs') \<Rightarrow> Inl (e, (self s, rhs'))
                        | Inr rhs3 \<Rightarrow> Inr (self s, rhs3)))))"
    by (simp add: solveLDLT_Vector_def)
  then show "solveLDLT_Vector gl gr m rhs \<noteq> Inl (IllegalArgumentException, st)"
    by (simp add: ldlt_factor_no_illegal forward_Vector_no_illegal scale_Vector_no_illegal
        back_Vector_no_illegal split: sum.splits prod.splits)
next
  fix st
  assume "\<not> rws m < cls m \<and> rws R = rws m"
  then have "solveLDLT_Matrix gl gr m R =
        (case ldlt_factor (ldlt_scratch gl gr m) of
           Inl (e, s) \<Rightarrow> Inl (e, (self s, R))
         | Inr s \<Rightarrow>
             (case forward_Matrix s R of
                Inl (e, rhs') \<Rightarrow> Inl (e, (self s, rhs'))
              | Inr rhs1 \<Rightarrow>
                  (case scale_Matrix s rhs1 of
                     Inl (e, rhs') \<Rightarrow> Inl (e, (self s, rhs'))
                   | Inr rhs2 \<Rightarrow>
                       (case back_Matrix s rhs2 of
                          Inl (e, rhs') \<Rightarrow> Inl (e, (self s, rhs'))
                        | Inr rhs3 \<Rightarrow> Inr (self s, rhs3)))))"
    by (simp add: solveLDLT_Matrix_def)
  then show "solveLDLT_Matrix gl gr m R \<noteq> Inl (IllegalArgumentException, st)"
    by (simp add: ldlt_factor_no_illegal forward_Matrix_no_illegal scale_Matrix_no_illegal
        back_Matrix_no_illegal split: sum.splits prod.splits)
qed

theorem solveLDLT_preconditions_witness:
  "solveLDLT_Vector int real \<lparr>mat = [[4, 1, 0 :: real]], rws = 1, cls = 3\<rparr>
      \<lparr>va = Some \<lparr>addr = 1, cells = [1]\<rparr>, sz = 1, cap = 1\<rparr> =
     Inl (IllegalArgumentException,
          (\<lparr>mat = [[4, 1, 0]], rws = 1, cls = 3\<rparr>, \<lparr>va = Some \<lparr>addr = 1, cells = [1]\<rparr>, sz = 1, cap = 1\<rparr>)) \<and>
   solveLDLT_Matrix int real \<lparr>mat = [[4, 1], [4, 0 :: real]], rws = 2, cls = 2\<rparr>
      \<lparr>mat = [[1, 2, 3]], rws = 1, cls = 3\<rparr> =
     Inl (IllegalArgumentException,
          (\<lparr>mat = [[4, 1], [4, 0]], rws = 2, cls = 2\<rparr>, \<lparr>mat = [[1, 2, 3]], rws = 1, cls = 3\<rparr>)) \<and>
   (\<forall>st. solveLDLT_Vector int real \<lparr>mat = [[4, 1], [4, 0 :: real]], rws = 2, cls = 2\<rparr>
      \<lparr>va = Some \<lparr>addr = 1, cells = [1, 2]\<rparr>, sz = 2, cap = 2\<rparr> \<noteq> Inl (IllegalArgumentException, st))"
  using solveLDLT_preconditions[of "\<lparr>mat = [[4, 1, 0 :: real]], rws = 1, cls = 3\<rparr>"
      "\<lparr>va = Some \<lparr>addr = 1, cells = [1]\<rparr>, sz = 1, cap = 1\<rparr>" int real]
    solveLDLT_preconditions[of "\<lparr>mat = [[4, 1], [4, 0 :: real]], rws = 2, cls = 2\<rparr>"
      "\<lparr>va = Some \<lparr>addr = 1, cells = [1, 2]\<rparr>, sz = 2, cap = 2\<rparr>" int real
      "\<lparr>mat = [[1, 2, 3]], rws = 1, cls = 3\<rparr>"]
  by simp

subsection \<open>Loops as folds\<close>

lemma upto_snoc: "lo \<le> k \<Longrightarrow> [lo..k + 1 - 1] = [lo..k - 1] @ [k]"
  using upto_rec2[of lo k] by simp

lemma for_loop_fold:
  assumes P0: "P lo s"
    and step: "\<And>i s. lo \<le> i \<Longrightarrow> i < hi \<Longrightarrow> P i s \<Longrightarrow>
                 \<exists>s'. body i s = Inr s' \<and> \<alpha> s' = f i (\<alpha> s) \<and> P (i + 1) s'"
  shows "\<exists>s'. for_loop lo hi body s = Inr s' \<and> \<alpha> s' = fold f [lo..hi - 1] (\<alpha> s) \<and>
              P (max lo hi) s'"
proof -
  let ?I = "\<lambda>k s'. P k s' \<and> \<alpha> s' = fold f [lo..k - 1] (\<alpha> s)"
  have "\<exists>s'. for_loop lo hi body s = Inr s' \<and> ?I (max lo hi) s'"
  proof (rule for_loop_rule[where I = ?I])
    show "?I lo s" using P0 by simp
  next
    fix i t assume i: "lo \<le> i" "i < hi" and I: "?I i t"
    from step[OF i] I obtain t' where
      t': "body i t = Inr t'" "\<alpha> t' = f i (\<alpha> t)" "P (i + 1) t'" by blast
    have "\<alpha> t' = fold f [lo..i + 1 - 1] (\<alpha> s)"
      unfolding upto_snoc[OF i(1)] using t'(2) I by simp
    then show "\<exists>s'. body i t = Inr s' \<and> ?I (i + 1) s'" using t' by blast
  qed
  then obtain s' where s': "for_loop lo hi body s = Inr s'" "P (max lo hi) s'"
    "\<alpha> s' = fold f [lo..max lo hi - 1] (\<alpha> s)" by blast
  have "[lo..max lo hi - 1] = [lo..hi - 1]" by (cases "lo \<le> hi") (simp_all add: max_def)
  then show ?thesis using s' by simp
qed

lemma for_down_fold:
  assumes P0: "P hi s"
    and step: "\<And>i s. lo \<le> i \<Longrightarrow> i \<le> hi \<Longrightarrow> P i s \<Longrightarrow>
                 \<exists>s'. body i s = Inr s' \<and> \<alpha> s' = f i (\<alpha> s) \<and> P (i - 1) s'"
  shows "\<exists>s'. for_down hi lo body s = Inr s' \<and> \<alpha> s' = fold f (rev [lo..hi]) (\<alpha> s) \<and>
              P (min hi (lo - 1)) s'"
  using assms
proof (induction hi lo body s rule: for_down.induct)
  case (1 i lo body s)
  show ?case
  proof (cases "lo \<le> i")
    case False
    then show ?thesis using "1.prems"(1) by (simp add: for_down_empty min_def)
  next
    case True
    from "1.prems"(2)[OF True _ "1.prems"(1)] obtain s1 where
      b: "body i s = Inr s1" and a: "\<alpha> s1 = f i (\<alpha> s)" and p: "P (i - 1) s1" by auto
    have "\<exists>s'. for_down (i - 1) lo body s1 = Inr s' \<and>
               \<alpha> s' = fold f (rev [lo..i - 1]) (\<alpha> s1) \<and> P (min (i - 1) (lo - 1)) s'"
      by (rule "1.IH"[OF True b p]) (use "1.prems"(2) in auto)
    then obtain s' where s': "for_down (i - 1) lo body s1 = Inr s'"
       "\<alpha> s' = fold f (rev [lo..i - 1]) (\<alpha> s1)" "P (min (i - 1) (lo - 1)) s'" by blast
    have "rev [lo..i] = i # rev [lo..i - 1]" using upto_rec2[OF True] by simp
    then have "\<alpha> s' = fold f (rev [lo..i]) (\<alpha> s)" using s'(2) a by simp
    moreover have "min (i - 1) (lo - 1) = min i (lo - 1)" using True by simp
    ultimately show ?thesis using True b s' by (simp add: for_down_step)
  qed
qed

lemma ent_put:
  assumes "0 \<le> i" "i < int (length L)" "0 \<le> c" "c < int (length (L ! nat i))" "0 \<le> i'" "0 \<le> c'"
  shows "ent (put L i c x) i' c' = (if i' = i \<and> c' = c then x else ent L i' c')"
proof (cases "i' = i")
  case True
  have "put L i c x ! nat i = (L ! nat i)[nat c := x]"
    unfolding put_def using assms(1,2) by simp
  then show ?thesis using True assms by (auto simp: ent_def nth_list_update)
next
  case False
  then have "nat i' \<noteq> nat i" using assms by simp
  then have "put L i c x ! nat i' = L ! nat i'" unfolding put_def by simp
  then show ?thesis using False by (simp add: ent_def)
qed

lemma put_put: "put (put L i c x) i c y = put L i c y"
proof (cases "nat i < length L")
  case True
  then show ?thesis by (simp add: put_def)
next
  case False
  then show ?thesis by (simp add: put_def list_update_beyond)
qed

lemma put_same:
  "0 \<le> i \<Longrightarrow> i < int (length L) \<Longrightarrow> put L i c (ent L i c) = L"
  by (simp add: put_def ent_def)

lemma rd2_wf:
  assumes "mat_wf m" "0 \<le> i" "i < rws m" "0 \<le> c" "c < cls m"
  shows "rd2 (mat m) i c = Some (ent (mat m) i c)"
proof -
  have l: "i < int (length (mat m))" using mat_wf_dims[OF assms(1)] assms(3) by simp
  then have "nat i < length (mat m)" using assms(2) by simp
  from mat_wf_row[OF assms(1) this] have "c < int (length (mat m ! nat i))" using assms(5) by simp
  then show ?thesis unfolding ent_def using assms(2,4) l by (rule_tac rd2_nth)
qed

lemma wr2_wf:
  assumes "mat_wf m" "0 \<le> i" "i < rws m" "0 \<le> c" "c < cls m"
  shows "wr2 (mat m) i c x = Some (put (mat m) i c x)"
    and "mat_wf (m\<lparr>mat := put (mat m) i c x\<rparr>)"
proof -
  have l: "i < int (length (mat m))" using mat_wf_dims[OF assms(1)] assms(3) by simp
  then have n: "nat i < length (mat m)" using assms(2) by simp
  from mat_wf_row[OF assms(1) this] have "c < int (length (mat m ! nat i))" using assms(5) by simp
  then show "wr2 (mat m) i c x = Some (put (mat m) i c x)"
    unfolding put_def using assms(2,4) l by (rule_tac wr2_upd)
  show "mat_wf (m\<lparr>mat := put (mat m) i c x\<rparr>)"
    unfolding put_def by (rule mat_wf_update[OF assms(1) n])
qed

lemma ent_put_wf:
  assumes "mat_wf m" "0 \<le> i" "i < rws m" "0 \<le> c" "c < cls m" "0 \<le> i'" "0 \<le> c'"
  shows "ent (put (mat m) i c x) i' c' = (if i' = i \<and> c' = c then x else ent (mat m) i' c')"
proof -
  have l: "i < int (length (mat m))" using mat_wf_dims[OF assms(1)] assms(3) by simp
  then have n: "nat i < length (mat m)" using assms(2) by simp
  from mat_wf_row[OF assms(1) this] have "c < int (length (mat m ! nat i))" using assms(5) by simp
  then show ?thesis using assms(2,4,6,7) l by (rule_tac ent_put)
qed

subsection \<open>The factorization pass computes the folds\<close>

lemma frame_okI:
  assumes "mat_wf (self s)" "rws (self s) = rows" "cls (self s) = cols"
    "int (length (lwbIdx s)) = rows" "int (length (r s)) = rows"
    "\<And>j. 0 \<le> j \<Longrightarrow> j < rows \<Longrightarrow>
       max 0 (j - cols + 1) \<le> lwbIdx s ! nat j \<and> lwbIdx s ! nat j \<le> j"
  shows "frame_ok rows cols s"
  unfolding frame_ok_def using assms by blast

lemma frame_okD:
  assumes "frame_ok rows cols s"
  shows "mat_wf (self s)" "rws (self s) = rows" "cls (self s) = cols"
    "int (length (lwbIdx s)) = rows" "int (length (r s)) = rows"
  using assms unfolding frame_ok_def by blast+

lemma frame_ok_lwb:
  assumes "frame_ok rows cols s" "0 \<le> j" "j < rows"
  shows "max 0 (j - cols + 1) \<le> lwbIdx s ! nat j" "lwbIdx s ! nat j \<le> j"
  using assms unfolding frame_ok_def by blast+

lemma diag_loop:
  fixes s :: "'a::{minus,times} frame"
  assumes ok: "frame_ok rows cols s" and i: "0 \<le> i" "i < rows" and c: "1 \<le> cols"
    and lo: "max 0 (i - cols + 1) \<le> lo"
  shows "\<exists>r'. for_loop lo i (diag_body i) (dd0, s) =
            Inr (fold (\<lambda>j dd. dd - (ent (mat (self s)) j 0 * ent (mat (self s)) j (i - j)) *
                                    ent (mat (self s)) j (i - j)) [lo..i - 1] dd0,
                 s\<lparr>r := r'\<rparr>) \<and>
          length r' = length (r s) \<and>
          (\<forall>k. lo \<le> k \<and> k < i \<longrightarrow>
               r' ! nat k = ent (mat (self s)) k 0 * ent (mat (self s)) k (i - k))"
proof -
  let ?L = "mat (self s)"
  let ?f = "\<lambda>j dd. dd - (ent ?L j 0 * ent ?L j (i - j)) * ent ?L j (i - j)"
  let ?P = "\<lambda>j ds. self (snd ds) = self s \<and> lwbIdx (snd ds) = lwbIdx s \<and>
              length (r (snd ds)) = length (r s) \<and>
              (\<forall>k. lo \<le> k \<and> k < j \<longrightarrow> r (snd ds) ! nat k = ent ?L k 0 * ent ?L k (i - k))"
  note d = frame_okD[OF ok]
  have "\<exists>ds'. for_loop lo i (diag_body i) (dd0, s) = Inr ds' \<and>
           fst ds' = fold ?f [lo..i - 1] (fst (dd0, s)) \<and> ?P (max lo i) ds'"
  proof (rule for_loop_fold[where P = ?P and \<alpha> = fst and f = ?f])
    show "?P lo (dd0, s)" by auto
  next
    fix j and ds :: "'a \<times> 'a frame"
    assume j: "lo \<le> j" "j < i" and P: "?P j ds"
    obtain dd t where ds: "ds = (dd, t)" by (cases ds)
    have t: "self t = self s" "length (r t) = length (r s)" "lwbIdx t = lwbIdx s"
      and old: "\<And>k. lo \<le> k \<Longrightarrow> k < j \<Longrightarrow> r t ! nat k = ent ?L k 0 * ent ?L k (i - k)"
      using P ds by simp_all
    have j0: "0 \<le> j" "j < rows" using j lo i by simp_all
    have ij: "0 \<le> i - j" "i - j < cols" using j lo by simp_all
    have r1: "rd2 (mat (self t)) j (i - j) = Some (ent ?L j (i - j))"
      unfolding t(1) using d(1) j0 ij d(2,3) by (rule_tac rd2_wf) simp_all
    have r2: "rd2 (mat (self t)) j 0 = Some (ent ?L j 0)"
      unfolding t(1) using d(1) j0 c d(2,3) by (rule_tac rd2_wf) simp_all
    have w: "wr (r t) j (ent ?L j 0 * ent ?L j (i - j)) =
               Some ((r t)[nat j := ent ?L j 0 * ent ?L j (i - j)])"
      using j0 t(2) d(5) by (simp add: wr_upd)
    let ?t' = "t\<lparr>r := (r t)[nat j := ent ?L j 0 * ent ?L j (i - j)]\<rparr>"
    have b: "diag_body i j ds = Inr (?f j dd, ?t')"
      unfolding diag_body_def ds by (simp add: r1 r2 w)
    have new: "\<forall>k. lo \<le> k \<and> k < j + 1 \<longrightarrow> r ?t' ! nat k = ent ?L k 0 * ent ?L k (i - k)"
    proof (intro allI impI)
      fix k assume k: "lo \<le> k \<and> k < j + 1"
      show "r ?t' ! nat k = ent ?L k 0 * ent ?L k (i - k)"
      proof (cases "k = j")
        case True
        have "nat j < length (r t)" using j0 t(2) d(5) by simp
        then show ?thesis using True by simp
      next
        case False
        then have "nat k \<noteq> nat j" using k j0 lo by arith
        moreover have "k < j" using k False by simp
        ultimately show ?thesis using old[of k] k by simp
      qed
    qed
    have "?P (j + 1) (?f j dd, ?t')" using t new by simp
    then show "\<exists>ds'. diag_body i j ds = Inr ds' \<and> fst ds' = ?f j (fst ds) \<and> ?P (j + 1) ds'"
      using b ds by simp
  qed
  then obtain dd' t' where res: "for_loop lo i (diag_body i) (dd0, s) = Inr (dd', t')"
    and dd': "dd' = fold ?f [lo..i - 1] dd0" and P': "?P (max lo i) (dd', t')"
    by auto
  have eq: "t' = s\<lparr>r := r t'\<rparr>" using P' by simp
  have cover: "\<forall>k. lo \<le> k \<and> k < i \<longrightarrow> r t' ! nat k = ent ?L k 0 * ent ?L k (i - k)"
    using P' by (simp add: max_def split: if_splits)
  have len: "length (r t') = length (r s)" using P' by simp
  have "for_loop lo i (diag_body i) (dd0, s) = Inr (fold ?f [lo..i - 1] dd0, s\<lparr>r := r t'\<rparr>)"
    using res dd' eq by simp
  then show ?thesis using len cover by blast
qed

lemma elim_loop:
  fixes s :: "'a::{minus,times} frame"
  assumes ok: "frame_ok rows cols s" and i: "0 \<le> i" and j: "i < j" "j < rows" "j < i + cols"
    and st: "max 0 (j - cols + 1) \<le> st"
  shows "for_loop st i (elim_body i j) s =
           Inr (s\<lparr>self := (self s)\<lparr>mat := put (mat (self s)) i (j - i)
                  (fold (\<lambda>k m. m - ent (mat (self s)) k (j - k) * r s ! nat k) [st..i - 1]
                     (ent (mat (self s)) i (j - i)))\<rparr>\<rparr>)"
proof -
  let ?L = "mat (self s)"
  let ?c = "j - i"
  let ?f = "\<lambda>k m. m - ent ?L k (j - k) * r s ! nat k"
  let ?at = "\<lambda>v. s\<lparr>self := (self s)\<lparr>mat := put ?L i ?c v\<rparr>\<rparr>"
  let ?\<alpha> = "\<lambda>t :: 'a frame. ent (mat (self t)) i ?c"
  let ?P = "\<lambda>(k::int) t. \<exists>v. t = ?at v"
  note d = frame_okD[OF ok]
  have ir: "i < rws (self s)" "0 \<le> ?c" "?c < cls (self s)" using j d(2,3) by simp_all
  have lenL: "i < int (length ?L)" using mat_wf_dims[OF d(1)] ir(1) by simp
  have same: "\<And>v. ent (put ?L i ?c v) i ?c = v"
    using ent_put_wf[OF d(1) i ir i ir(2)] by simp
  have "\<exists>t. for_loop st i (elim_body i j) s = Inr t \<and> ?\<alpha> t = fold ?f [st..i - 1] (?\<alpha> s) \<and>
           ?P (max st i) t"
  proof (rule for_loop_fold[where P = ?P and \<alpha> = ?\<alpha> and f = ?f])
    have "put ?L i ?c (ent ?L i ?c) = ?L" using i lenL by (rule put_same)
    then have "s = ?at (ent ?L i ?c)" by simp
    then show "?P st s" by blast
  next
    fix k and t :: "'a frame"
    assume k: "st \<le> k" "k < i" and P: "?P k t"
    then obtain v where t: "t = ?at v" by blast
    have wft: "mat_wf (self t)" unfolding t using wr2_wf(2)[OF d(1) i ir] by simp
    have dims: "rws (self t) = rows" "cls (self t) = cols" unfolding t using d(2,3) by simp_all
    have k0: "0 \<le> k" "k < rows" "0 \<le> j - k" "j - k < cols" using k st j by simp_all
    have "rd2 (mat (self t)) k (j - k) = Some (ent (mat (self t)) k (j - k))"
      using wft k0 dims by (rule_tac rd2_wf) simp_all
    moreover have "ent (mat (self t)) k (j - k) = ent ?L k (j - k)"
      unfolding t using ent_put_wf[OF d(1) i ir k0(1) k0(3)] k by simp
    ultimately have r1: "rd2 (mat (self t)) k (j - k) = Some (ent ?L k (j - k))" by simp
    have r2: "rd (r t) k = Some (r s ! nat k)"
      unfolding t using k0 d(5) by (simp add: rd_nth)
    have "rd2 (mat (self t)) i ?c = Some (ent (mat (self t)) i ?c)"
      using wft i ir dims d(2,3) by (rule_tac rd2_wf) simp_all
    then have r3: "rd2 (mat (self t)) i ?c = Some v" unfolding t using same by simp
    have "wr2 (mat (self t)) i ?c (?f k v) = Some (put (mat (self t)) i ?c (?f k v))"
      using wft i ir dims d(2,3) by (rule_tac wr2_wf(1)) simp_all
    then have w: "wr2 (mat (self t)) i ?c (?f k v) = Some (put ?L i ?c (?f k v))"
      unfolding t by (simp add: put_put)
    have b: "elim_body i j k t = Inr (?at (?f k v))"
      unfolding elim_body_def by (simp add: r1 r2 r3 w) (simp add: t)
    have "?\<alpha> (?at (?f k v)) = ?f k (?\<alpha> t)" unfolding t using same by simp
    then show "\<exists>t'. elim_body i j k t = Inr t' \<and> ?\<alpha> t' = ?f k (?\<alpha> t) \<and> ?P (k + 1) t'"
      using b by blast
  qed
  then obtain t v where t: "for_loop st i (elim_body i j) s = Inr t"
    "?\<alpha> t = fold ?f [st..i - 1] (?\<alpha> s)" "t = ?at v" by blast
  have "v = fold ?f [st..i - 1] (ent ?L i ?c)" using t(2) unfolding t(3) using same by simp
  then show ?thesis using t(1,3) by simp
qed

lemma fold_cong_upto:
  assumes "\<And>k. lo \<le> k \<Longrightarrow> k \<le> hi \<Longrightarrow> f k = g k"
  shows "fold f [lo..hi] x = fold g [lo..hi] x"
  by (rule fold_cong) (use assms in auto)

lemma offdiag_body_step:
  fixes s :: "'a::{minus,times,inverse,abs,ord,numeral} frame"
  assumes ok: "frame_ok rows cols s" and i: "0 \<le> i" and j: "i < j" "j < rows" "j < i + cols"
    and cache: "\<And>k. lwbIdx s ! nat i \<le> k \<Longrightarrow> k < i \<Longrightarrow>
                  r s ! nat k = ent (mat (self s)) k 0 * ent (mat (self s)) k (i - k)"
  shows "\<exists>s'. offdiag_body i dd j s = Inr s' \<and>
               factors s' = offdiag_step i dd j (factors s) \<and>
               frame_ok rows cols s' \<and> r s' = r s \<and>
               lwbIdx s' ! nat i = lwbIdx s ! nat i"
proof -
  let ?L = "mat (self s)"
  let ?c = "j - i"
  let ?li = "lwbIdx s ! nat i"
  let ?lj = "lwbIdx s ! nat j"
  let ?st = "max ?li ?lj"
  note d = frame_okD[OF ok]
  have i': "i < rows" using j by simp
  have j0: "0 \<le> j" using i j by simp
  have ir: "i < rws (self s)" "0 \<le> ?c" "?c < cls (self s)" using j d(2,3) by simp_all
  have bi: "max 0 (i - cols + 1) \<le> ?li" "?li \<le> i" using frame_ok_lwb[OF ok i i'] by simp_all
  have bj: "max 0 (j - cols + 1) \<le> ?lj" "?lj \<le> j" using frame_ok_lwb[OF ok j0 j(2)] by simp_all
  have st: "max 0 (j - cols + 1) \<le> ?st" using bj by linarith
  have r0: "rd2 ?L i ?c = Some (ent ?L i ?c)" using d(1) i ir by (rule rd2_wf)
  have rli: "rd (lwbIdx s) i = Some ?li" using i i' d(4) by (simp add: rd_nth)
  have rlj: "rd (lwbIdx s) j = Some ?lj" using j0 j d(4) by (simp add: rd_nth)
  let ?acc = "fold (\<lambda>k m. m - ent ?L k (j - k) * r s ! nat k) [?st..i - 1] (ent ?L i ?c)"
  let ?s1 = "s\<lparr>self := (self s)\<lparr>mat := put ?L i ?c ?acc\<rparr>\<rparr>"
  have el: "for_loop ?st i (elim_body i j) s = Inr ?s1"
    using elim_loop[OF ok i j st] .
  have "?acc = fold (\<lambda>k m. m - ent ?L k (j - k) * (ent ?L k 0 * ent ?L k (i - k))) [?st..i - 1]
                (ent ?L i ?c)"
    by (rule fold_cong_upto) (use cache in simp)
  then have m: "?acc / dd = multiplier_of ?L (lwbIdx s) i j dd"
    by (simp add: multiplier_of_def)
  let ?m = "multiplier_of ?L (lwbIdx s) i j dd"
  have wf1: "mat_wf (self ?s1)" using wr2_wf(2)[OF d(1) i ir] by simp
  have "rd2 (mat (self ?s1)) i ?c = Some (ent (mat (self ?s1)) i ?c)"
    using wf1 i ir by (rule_tac rd2_wf) simp_all
  moreover have "ent (mat (self ?s1)) i ?c = ?acc"
    using ent_put_wf[OF d(1) i ir i ir(2), of ?acc] by simp
  ultimately have r1: "rd2 (mat (self ?s1)) i ?c = Some ?acc" by simp
  have "wr2 (mat (self ?s1)) i ?c (?acc / dd) = Some (put (mat (self ?s1)) i ?c (?acc / dd))"
    using wf1 i ir by (rule_tac wr2_wf(1)) simp_all
  then have w1: "wr2 (mat (self ?s1)) i ?c (?acc / dd) = Some (put ?L i ?c ?m)"
    using m by (simp add: put_put)
  let ?s2 = "s\<lparr>self := (self s)\<lparr>mat := put ?L i ?c ?m\<rparr>\<rparr>"
  let ?lwb' = "if \<bar>?m\<bar> < 1 / 1000000000000 \<and> ?lj = i then (lwbIdx s)[nat j := i + 1] else lwbIdx s"
  let ?s' = "?s2\<lparr>lwbIdx := ?lwb'\<rparr>"
  have wl: "\<And>v. wr (lwbIdx s) j v = Some ((lwbIdx s)[nat j := v])"
    using j0 j d(4) by (simp add: wr_upd)
  have b: "offdiag_body i dd j s = Inr ?s'"
    unfolding offdiag_body_def
    apply (simp only: r0 rli rlj el r1 w1 option.case sum.case)
    apply (simp add: Let_def m rlj wl)
    done
  have f: "factors ?s' = offdiag_step i dd j (factors s)"
    by (simp add: factors_def offdiag_step_def Let_def)
  have wf2: "mat_wf (self ?s')" using wr2_wf(2)[OF d(1) i ir, of ?m] by simp
  have ok': "frame_ok rows cols ?s'"
  proof (rule frame_okI)
    show "mat_wf (self ?s')" by (rule wf2)
    show "rws (self ?s') = rows" "cls (self ?s') = cols" using d by simp_all
    show "int (length (lwbIdx ?s')) = rows" using d by simp
    show "int (length (r ?s')) = rows" using d by simp
  next
    fix k assume k: "0 \<le> k" "k < rows"
    have old: "max 0 (k - cols + 1) \<le> lwbIdx s ! nat k" "lwbIdx s ! nat k \<le> k"
      using frame_ok_lwb[OF ok k] by simp_all
    show "max 0 (k - cols + 1) \<le> lwbIdx ?s' ! nat k \<and> lwbIdx ?s' ! nat k \<le> k"
    proof (cases "\<bar>?m\<bar> < 1 / 1000000000000 \<and> ?lj = i")
      case False
      then have "lwbIdx ?s' = lwbIdx s" by auto
      then show ?thesis using old by simp
    next
      case True
      then have l': "lwbIdx ?s' = (lwbIdx s)[nat j := i + 1]" by auto
      show ?thesis
      proof (cases "k = j")
        case kj: True
        have "nat j < length (lwbIdx s)" using j0 j d(4) by simp
        then have "lwbIdx ?s' ! nat k = i + 1" unfolding l' kj by simp
        then show ?thesis using bj True j kj by simp
      next
        case kj: False
        then have "nat k \<noteq> nat j" using k j0 by simp
        then have "lwbIdx ?s' ! nat k = lwbIdx s ! nat k" unfolding l' by simp
        then show ?thesis using old by simp
      qed
    qed
  qed
  have "nat j \<noteq> nat i" using i j by simp
  then have li: "lwbIdx ?s' ! nat i = ?li" by auto
  have "r ?s' = r s" by simp
  then show ?thesis using b f ok' li by blast
qed

lemma fst_offdiag_step:
  "fst (offdiag_step i d j (L, lwb)) = put L i (j - i) (multiplier_of L lwb i j d)"
  by (simp add: offdiag_step_def Let_def)

text \<open>What holds while the rows \<open>j\<close> of the band below row \<open>i\<close> are processed: the
  cache \<open>r\<close> holds the products for row \<open>i\<close>.\<close>

lemma ldlt_diag_step:
  fixes s :: "'a::{minus,times} frame"
  assumes ok: "frame_ok rows cols s" and c: "1 \<le> cols" and i: "0 \<le> i" "i < rows"
  shows "\<exists>s2. ldlt_diag i s = Inr (pivot_of (mat (self s)) (lwbIdx s) i, s2) \<and>
               frame_ok rows cols s2 \<and>
               mat (self s2) = put (mat (self s)) i 0 (pivot_of (mat (self s)) (lwbIdx s) i) \<and>
               lwbIdx s2 = lwbIdx s \<and>
               (\<forall>k. lwbIdx s2 ! nat i \<le> k \<and> k < i \<longrightarrow>
                  r s2 ! nat k = ent (mat (self s2)) k 0 * ent (mat (self s2)) k (i - k))"
proof -
  let ?L = "mat (self s)"
  let ?lo = "lwbIdx s ! nat i"
  let ?d = "pivot_of ?L (lwbIdx s) i"
  note d = frame_okD[OF ok]
  have ir: "i < rws (self s)" "(0::int) \<le> 0" "0 < cls (self s)" using i c d(2,3) by simp_all
  have lo: "max 0 (i - cols + 1) \<le> ?lo" "?lo \<le> i" using frame_ok_lwb[OF ok i] by simp_all
  have r0: "rd2 ?L i 0 = Some (ent ?L i 0)" using d(1) i(1) ir by (rule rd2_wf)
  have rl: "rd (lwbIdx s) i = Some ?lo" using i d(4) by (simp add: rd_nth)
  from diag_loop[OF ok i c lo(1), of "ent ?L i 0"] obtain r' where
    dl: "for_loop ?lo i (diag_body i) (ent ?L i 0, s) = Inr (?d, s\<lparr>r := r'\<rparr>)"
    and len: "length r' = length (r s)"
    and cache: "\<And>k. ?lo \<le> k \<Longrightarrow> k < i \<Longrightarrow> r' ! nat k = ent ?L k 0 * ent ?L k (i - k)"
    unfolding pivot_of_def by blast
  let ?s1 = "s\<lparr>r := r'\<rparr>"
  have w: "wr2 (mat (self ?s1)) i 0 ?d = Some (put ?L i 0 ?d)"
    using wr2_wf(1)[OF d(1) i(1) ir] by simp
  let ?s2 = "s\<lparr>r := r', self := (self s)\<lparr>mat := put ?L i 0 ?d\<rparr>\<rparr>"
  have b: "ldlt_diag i s = Inr (?d, ?s2)"
    unfolding ldlt_diag_def
    apply (simp only: r0 rl dl w option.case sum.case prod.case)
    apply simp
    done
  have wf2: "mat_wf (self ?s2)" using wr2_wf(2)[OF d(1) i(1) ir, of ?d] by simp
  have ok2: "frame_ok rows cols ?s2"
  proof (rule frame_okI)
    show "mat_wf (self ?s2)" by (rule wf2)
    show "rws (self ?s2) = rows" "cls (self ?s2) = cols" using d by simp_all
    show "int (length (lwbIdx ?s2)) = rows" using d by simp
    show "int (length (r ?s2)) = rows" using d len by simp
  next
    fix k assume "0 \<le> k" "k < rows"
    then show "max 0 (k - cols + 1) \<le> lwbIdx ?s2 ! nat k \<and> lwbIdx ?s2 ! nat k \<le> k"
      using frame_ok_lwb[OF ok, of k] by simp
  qed
  have cache2: "\<forall>k. lwbIdx ?s2 ! nat i \<le> k \<and> k < i \<longrightarrow>
                  r ?s2 ! nat k = ent (mat (self ?s2)) k 0 * ent (mat (self ?s2)) k (i - k)"
  proof (intro allI impI)
    fix k assume k: "lwbIdx ?s2 ! nat i \<le> k \<and> k < i"
    then have k0: "0 \<le> k" "?lo \<le> k" "k < i" "0 \<le> i - k" using lo by simp_all
    have "ent (put ?L i 0 ?d) k 0 = ent ?L k 0"
      using ent_put_wf[OF d(1) i(1) ir k0(1), of 0 ?d] k0 by simp
    moreover have "ent (put ?L i 0 ?d) k (i - k) = ent ?L k (i - k)"
      using ent_put_wf[OF d(1) i(1) ir k0(1) k0(4), of ?d] k0 by simp
    ultimately show "r ?s2 ! nat k = ent (mat (self ?s2)) k 0 * ent (mat (self ?s2)) k (i - k)"
      using cache[OF k0(2,3)] by simp
  qed
  show ?thesis using b ok2 cache2 by (intro exI[of _ ?s2]) simp
qed

lemma offdiag_loop:
  fixes s2 :: "'a::{minus,times,inverse,abs,ord,numeral} frame"
  assumes ok: "frame_ok rows cols s2" and i: "0 \<le> i" and u: "u \<le> min (i + cols) rows"
    and cache: "\<forall>k. lwbIdx s2 ! nat i \<le> k \<and> k < i \<longrightarrow>
                  r s2 ! nat k = ent (mat (self s2)) k 0 * ent (mat (self s2)) k (i - k)"
  shows "\<exists>s'. for_loop (i + 1) u (offdiag_body i dd) s2 = Inr s' \<and>
               factors s' = fold (offdiag_step i dd) [i + 1..u - 1] (factors s2) \<and>
               frame_ok rows cols s'"
proof -
  let ?Q = "\<lambda>(j::int) t. frame_ok rows cols t \<and> r t = r s2 \<and>
              lwbIdx t ! nat i = lwbIdx s2 ! nat i \<and>
              (\<forall>k c. 0 \<le> k \<and> k < i \<and> 0 \<le> c \<longrightarrow>
                 ent (mat (self t)) k c = ent (mat (self s2)) k c)"
  have "\<exists>s'. for_loop (i + 1) u (offdiag_body i dd) s2 = Inr s' \<and>
               factors s' = fold (offdiag_step i dd) [i + 1..u - 1] (factors s2) \<and>
               ?Q (max (i + 1) u) s'"
  proof (rule for_loop_fold[where P = ?Q and \<alpha> = factors and f = "offdiag_step i dd"])
    show "?Q (i + 1) s2" using ok by simp
  next
    fix j and t :: "'a frame"
    assume j: "i + 1 \<le> j" "j < u" and Q: "?Q j t"
    have okt: "frame_ok rows cols t" and rt: "r t = r s2"
      and lt: "lwbIdx t ! nat i = lwbIdx s2 ! nat i"
      and et: "\<And>k c. 0 \<le> k \<Longrightarrow> k < i \<Longrightarrow> 0 \<le> c \<Longrightarrow>
                 ent (mat (self t)) k c = ent (mat (self s2)) k c"
      using Q by blast+
    have jj: "i < j" "j < rows" "j < i + cols" using j u by simp_all
    have i': "i < rows" using jj by simp
    have lo0: "0 \<le> lwbIdx s2 ! nat i" using frame_ok_lwb(1)[OF ok i i'] by simp
    have cache_t: "\<And>k. lwbIdx t ! nat i \<le> k \<Longrightarrow> k < i \<Longrightarrow>
                  r t ! nat k = ent (mat (self t)) k 0 * ent (mat (self t)) k (i - k)"
    proof -
      fix k assume k: "lwbIdx t ! nat i \<le> k" "k < i"
      then have k0: "0 \<le> k" "0 \<le> i - k" using lt lo0 by simp_all
      show "r t ! nat k = ent (mat (self t)) k 0 * ent (mat (self t)) k (i - k)"
        using cache k lt rt et[OF k0(1) k(2), of 0] et[OF k0(1) k(2) k0(2)] by simp
    qed
    from offdiag_body_step[OF okt i jj cache_t, of dd] obtain t' where
      t': "offdiag_body i dd j t = Inr t'" "factors t' = offdiag_step i dd j (factors t)"
        "frame_ok rows cols t'" "r t' = r t" "lwbIdx t' ! nat i = lwbIdx t ! nat i"
      by blast
    note dt = frame_okD[OF okt]
    have ir: "i < rws (self t)" "0 \<le> j - i" "j - i < cls (self t)" using jj dt(2,3) by simp_all
    have "fst (factors t') = fst (offdiag_step i dd j (factors t))"
      using t'(2) by simp
    then have "mat (self t') = fst (offdiag_step i dd j (mat (self t), lwbIdx t))"
      by (simp add: factors_def)
    then have mt': "mat (self t') =
        put (mat (self t)) i (j - i) (multiplier_of (mat (self t)) (lwbIdx t) i j dd)"
      unfolding fst_offdiag_step .
    have "\<forall>k c. 0 \<le> k \<and> k < i \<and> 0 \<le> c \<longrightarrow>
            ent (mat (self t')) k c = ent (mat (self s2)) k c"
    proof (intro allI impI)
      fix k c :: int assume kc: "0 \<le> k \<and> k < i \<and> 0 \<le> c"
      then have "ent (mat (self t')) k c = ent (mat (self t)) k c"
        unfolding mt' using ent_put_wf[OF dt(1) i ir, of k c] by simp
      then show "ent (mat (self t')) k c = ent (mat (self s2)) k c"
        using et[of k c] kc by simp
    qed
    then have "?Q (j + 1) t'" using t' rt lt by simp
    then show "\<exists>t'. offdiag_body i dd j t = Inr t' \<and>
                 factors t' = offdiag_step i dd j (factors t) \<and> ?Q (j + 1) t'"
      using t'(1,2) by blast
  qed
  then show ?thesis by blast
qed

lemma ldlt_row_step:
  fixes s :: "'a::{minus,times,inverse,abs,ord,numeral} frame"
  assumes ok: "frame_ok rows cols s" and c: "1 \<le> cols" and i: "0 \<le> i" "i < rows"
  shows "\<exists>s'. ldlt_row i s = Inr s' \<and> factors s' = row_step rows cols i (factors s) \<and>
               frame_ok rows cols s'"
proof -
  let ?d = "pivot_of (mat (self s)) (lwbIdx s) i"
  from ldlt_diag_step[OF ok c i] obtain s2 where
    s2: "ldlt_diag i s = Inr (?d, s2)" "frame_ok rows cols s2"
      "mat (self s2) = put (mat (self s)) i 0 ?d" "lwbIdx s2 = lwbIdx s"
    and cache: "\<forall>k. lwbIdx s2 ! nat i \<le> k \<and> k < i \<longrightarrow>
                  r s2 ! nat k = ent (mat (self s2)) k 0 * ent (mat (self s2)) k (i - k)"
    by blast
  note d2 = frame_okD[OF s2(2)]
  from offdiag_loop[OF s2(2) i(1) order_refl cache, of ?d] obtain s' where
    s': "for_loop (i + 1) (min (i + cols) rows) (offdiag_body i ?d) s2 = Inr s'"
      "factors s' = fold (offdiag_step i ?d) [i + 1..min (i + cols) rows - 1] (factors s2)"
      "frame_ok rows cols s'"
    by blast
  have "ldlt_row i s = Inr s'"
    unfolding ldlt_row_def by (simp add: s2(1) Let_def d2(2,3) s'(1))
  moreover have "factors s' = row_step rows cols i (factors s)"
    using s'(2) s2(3,4) by (simp add: row_step_def factors_def Let_def)
  ultimately show ?thesis using s'(3) by blast
qed

lemma nth_lwb_init:
  assumes "0 \<le> k" "k < rows"
  shows "lwb_init rows cols ! nat k = (if k < cols then 0 else k - cols + 1)"
proof -
  have "nat k < length [0..rows - 1]" using assms by simp
  moreover have "[0..rows - 1] ! nat k = k" using assms by (simp add: nth_upto)
  ultimately show ?thesis unfolding lwb_init_def by simp
qed

lemma length_lwb_init: "0 \<le> rows \<Longrightarrow> int (length (lwb_init rows cols)) = rows"
  by (simp add: lwb_init_def)

lemma ldlt_init_ok:
  fixes A :: "'a matrix"
  assumes A: "mat_wf A" and c: "0 \<le> cls A" "cls A \<le> rws A"
  shows "ldlt_init (ldlt_scratch gl gr A) =
           Inr ((ldlt_scratch gl gr A)\<lparr>lwbIdx := lwb_init (rws A) (cls A)\<rparr>)"
proof -
  let ?s0 = "ldlt_scratch gl gr A"
  let ?rows = "rws A" and ?cols = "cls A"
  let ?v = "\<lambda>k. if k < ?cols then 0 else k - ?cols + 1"
  let ?P = "\<lambda>i (t :: 'a frame). self t = A \<and> r t = r ?s0 \<and> int (length (lwbIdx t)) = ?rows \<and>
              (\<forall>k. 0 \<le> k \<and> k < i \<longrightarrow> lwbIdx t ! nat k = ?v k)"
  have rows0: "0 \<le> ?rows" using c by simp
  have len0: "int (length (lwbIdx ?s0)) = ?rows" using rows0 by (simp add: ldlt_scratch_def)
  have self0: "self ?s0 = A" by (simp add: ldlt_scratch_def)
  have step: "\<And>i (t :: 'a frame) x. 0 \<le> i \<Longrightarrow> i < ?rows \<Longrightarrow> ?P i t \<Longrightarrow> x = ?v i \<Longrightarrow>
     wr (lwbIdx t) i x = Some ((lwbIdx t)[nat i := x]) \<and> ?P (i + 1) (t\<lparr>lwbIdx := (lwbIdx t)[nat i := x]\<rparr>)"
  proof -
    fix i and t :: "'a frame" and x
    assume i: "0 \<le> i" "i < ?rows" and P: "?P i t" and x: "x = ?v i"
    have len: "int (length (lwbIdx t)) = ?rows" using P by simp
    have old: "\<And>k. 0 \<le> k \<Longrightarrow> k < i \<Longrightarrow> lwbIdx t ! nat k = ?v k" using P by blast
    have w: "wr (lwbIdx t) i x = Some ((lwbIdx t)[nat i := x])" using i len by (simp add: wr_upd)
    have "\<forall>k. 0 \<le> k \<and> k < i + 1 \<longrightarrow> (lwbIdx t)[nat i := x] ! nat k = ?v k"
    proof (intro allI impI)
      fix k assume k: "0 \<le> k \<and> k < i + 1"
      show "(lwbIdx t)[nat i := x] ! nat k = ?v k"
      proof (cases "k = i")
        case True
        have "nat i < length (lwbIdx t)" using i len by simp
        then show ?thesis unfolding True x by simp
      next
        case False
        then have "nat i \<noteq> nat k" using k i by arith
        then have "(lwbIdx t)[nat i := x] ! nat k = lwbIdx t ! nat k" by simp
        then show ?thesis using old[of k] k False by simp
      qed
    qed
    then show "wr (lwbIdx t) i x = Some ((lwbIdx t)[nat i := x]) \<and>
               ?P (i + 1) (t\<lparr>lwbIdx := (lwbIdx t)[nat i := x]\<rparr>)"
      using w P len by simp
  qed
  let ?b1 = "\<lambda>i (s :: 'a frame). case wr (lwbIdx s) i 0 of
                       None \<Rightarrow> Inl (MemoryFault, s)
                     | Some l \<Rightarrow> Inr (s\<lparr>lwbIdx := l\<rparr>)"
  let ?b2 = "\<lambda>i (s :: 'a frame). case wr (lwbIdx s) i (i - cls (self s) + 1) of
                      None \<Rightarrow> Inl (MemoryFault, s)
                    | Some l \<Rightarrow> Inr (s\<lparr>lwbIdx := l\<rparr>)"
  have "\<exists>s1. for_loop 0 ?cols ?b1 ?s0 = Inr s1 \<and> ?P (max 0 ?cols) s1"
  proof (rule for_loop_rule[where I = ?P])
    show "?P 0 ?s0" using len0 self0 by simp
  next
    fix i and t :: "'a frame"
    assume i: "0 \<le> i" "i < ?cols" and P: "?P i t"
    have "i < ?rows" using i c by simp
    from step[OF i(1) this P, of 0] i
    show "\<exists>s'. ?b1 i t = Inr s' \<and> ?P (i + 1) s'" by simp
  qed
  then obtain s1 where s1: "for_loop 0 ?cols ?b1 ?s0 = Inr s1" "?P ?cols s1"
    using c by (auto simp: max_def)
  have "\<exists>s2. for_loop ?cols ?rows ?b2 s1 = Inr s2 \<and> ?P (max ?cols ?rows) s2"
  proof (rule for_loop_rule[where I = ?P])
    show "?P ?cols s1" by (rule s1(2))
  next
    fix i and t :: "'a frame"
    assume i: "?cols \<le> i" "i < ?rows" and P: "?P i t"
    have i0: "0 \<le> i" using i c by simp
    have "self t = A" using P by simp
    with step[OF i0 i(2) P, of "i - ?cols + 1"] i
    show "\<exists>s'. ?b2 i t = Inr s' \<and> ?P (i + 1) s'" by simp
  qed
  then obtain s2 where s2: "for_loop ?cols ?rows ?b2 s1 = Inr s2" "?P ?rows s2"
    using c by (auto simp: max_def)
  have "lwbIdx s2 = lwb_init ?rows ?cols"
  proof (rule nth_equalityI)
    show "length (lwbIdx s2) = length (lwb_init ?rows ?cols)"
      using s2(2) length_lwb_init[OF rows0, of ?cols] by simp
  next
    fix n assume "n < length (lwbIdx s2)"
    then have n: "0 \<le> int n" "int n < ?rows" using s2(2) by simp_all
    have "lwbIdx s2 ! nat (int n) = ?v (int n)" using s2(2) n by blast
    moreover have "lwb_init ?rows ?cols ! nat (int n) = ?v (int n)"
      using n by (rule nth_lwb_init)
    ultimately show "lwbIdx s2 ! n = lwb_init ?rows ?cols ! n" by simp
  qed
  moreover have "self s2 = self ?s0" "r s2 = r ?s0" using s2(2) self0 by simp_all
  ultimately have "s2 = ?s0\<lparr>lwbIdx := lwb_init ?rows ?cols\<rparr>" by simp
  moreover have "ldlt_init ?s0 = for_loop ?cols ?rows ?b2 s1"
    unfolding ldlt_init_def self0 using s1 by simp
  ultimately show ?thesis using s2(1) by simp
qed

lemma frame_ok_init:
  assumes A: "mat_wf A" and c: "1 \<le> cls A" "cls A \<le> rws A"
  shows "frame_ok (rws A) (cls A) ((ldlt_scratch gl gr A)\<lparr>lwbIdx := lwb_init (rws A) (cls A)\<rparr>)"
proof (rule frame_okI)
  let ?s = "(ldlt_scratch gl gr A)\<lparr>lwbIdx := lwb_init (rws A) (cls A)\<rparr>"
  have rows0: "0 \<le> rws A" using c by simp
  show "mat_wf (self ?s)" using A by (simp add: ldlt_scratch_def)
  show "rws (self ?s) = rws A" "cls (self ?s) = cls A" by (simp_all add: ldlt_scratch_def)
  show "int (length (lwbIdx ?s)) = rws A" using length_lwb_init[OF rows0] by simp
  show "int (length (r ?s)) = rws A" using rows0 by (simp add: ldlt_scratch_def)
  fix j assume j: "0 \<le> j" "j < rws A"
  show "max 0 (j - cls A + 1) \<le> lwbIdx ?s ! nat j \<and> lwbIdx ?s ! nat j \<le> j"
    using nth_lwb_init[OF j, of "cls A"] c j by simp
qed

text \<open>The pass up to row \<open>n\<close>, and the whole pass.\<close>

lemma ldlt_rows_upto:
  fixes A :: "'a::{minus,times,inverse,abs,ord,numeral} matrix"
  assumes A: "mat_wf A" and c: "1 \<le> cls A" "cls A \<le> rws A" and n: "n \<le> rws A"
  shows "\<exists>s. for_loop 0 n ldlt_row ((ldlt_scratch gl gr A)\<lparr>lwbIdx := lwb_init (rws A) (cls A)\<rparr>) = Inr s \<and>
             factors s = fold (row_step (rws A) (cls A)) [0..n - 1] (mat A, lwb_init (rws A) (cls A)) \<and>
             frame_ok (rws A) (cls A) s"
proof -
  let ?s1 = "(ldlt_scratch gl gr A)\<lparr>lwbIdx := lwb_init (rws A) (cls A)\<rparr>"
  have f1: "factors ?s1 = (mat A, lwb_init (rws A) (cls A))"
    by (simp add: factors_def ldlt_scratch_def)
  have "\<exists>s. for_loop 0 n ldlt_row ?s1 = Inr s \<and>
             factors s = fold (row_step (rws A) (cls A)) [0..n - 1] (factors ?s1) \<and>
             frame_ok (rws A) (cls A) s"
  proof (rule for_loop_fold[where P = "\<lambda>i. frame_ok (rws A) (cls A)" and \<alpha> = factors])
    show "frame_ok (rws A) (cls A) ?s1" by (rule frame_ok_init[OF A c])
  next
    fix i and s :: "'a frame"
    assume i: "0 \<le> i" "i < n" and ok: "frame_ok (rws A) (cls A) s"
    have "i < rws A" using i n by simp
    from ldlt_row_step[OF ok c(1) i(1) this]
    show "\<exists>s'. ldlt_row i s = Inr s' \<and> factors s' = row_step (rws A) (cls A) i (factors s) \<and>
                frame_ok (rws A) (cls A) s'" .
  qed
  then show ?thesis unfolding f1 .
qed

lemma ldlt_factor_ok:
  fixes A :: "'a::{minus,times,inverse,abs,ord,numeral} matrix"
  assumes A: "mat_wf A" and c: "1 \<le> cls A" "cls A \<le> rws A"
  shows "\<exists>s. ldlt_factor (ldlt_scratch gl gr A) = Inr s \<and>
             factors s = factor_of (rws A) (cls A) (mat A) \<and> frame_ok (rws A) (cls A) s"
proof -
  have c0: "0 \<le> cls A" using c by simp
  have "ldlt_factor (ldlt_scratch gl gr A) =
          for_loop 0 (rws A) ldlt_row ((ldlt_scratch gl gr A)\<lparr>lwbIdx := lwb_init (rws A) (cls A)\<rparr>)"
    unfolding ldlt_factor_def ldlt_init_ok[OF A c0 c(2)] by (simp add: ldlt_scratch_def)
  then show ?thesis
    using ldlt_rows_upto[OF A c order_refl, of gl gr] by (simp add: factor_of_def)
qed


subsection \<open>The substitution passes compute the folds\<close>

lemma vec_wfD:
  assumes "vec_wf v"
  shows "0 \<le> sz v" "sz v \<le> cap v" "int (length (mem (va v))) = cap v" "va v \<noteq> None"
  using assms unfolding vec_wf_def vec_inv_def by blast+

lemma mem_store: "p \<noteq> None \<Longrightarrow> mem (store p xs) = xs"
  by (cases p) (simp_all add: mem_def store_def)

lemma store_not_None: "p \<noteq> None \<Longrightarrow> store p xs \<noteq> None"
  by (cases p) (simp_all add: store_def)

lemma vec_wf_store:
  assumes "vec_wf v" "length xs = length (mem (va v))"
  shows "vec_wf (v\<lparr>va := store (va v) xs\<rparr>)"
  using vec_wfD[OF assms(1)] assms(2)
  by (simp add: vec_wf_def vec_inv_def mem_store store_not_None)

lemma vector_get_ok:
  assumes "vec_wf v" "0 \<le> i" "i < sz v"
  shows "vector_get v i = Inr (mem (va v) ! nat i)"
proof -
  have "i < int (length (mem (va v)))" using vec_wfD[OF assms(1)] assms(3) by simp
  then have "rd (mem (va v)) i = Some (mem (va v) ! nat i)" using assms(2) by (simp add: rd_nth)
  then show ?thesis using assms(2,3) by (simp add: vector_get_def)
qed

lemma vector_set_ok:
  assumes "vec_wf v" "0 \<le> i" "i < sz v"
  shows "vector_set v i x = Inr (v\<lparr>va := store (va v) ((mem (va v))[nat i := x])\<rparr>)"
proof -
  have "i < int (length (mem (va v)))" using vec_wfD[OF assms(1)] assms(3) by simp
  then have "wr (mem (va v)) i x = Some ((mem (va v))[nat i := x])"
    using assms(2) by (simp add: wr_upd)
  then show ?thesis using assms(2,3) by (simp add: vector_set_def)
qed

text \<open>One statement of the substitution loops on a well-formed right-hand side.\<close>

lemma rhs_sub_ok:
  fixes rhs :: "'a::{minus,times} vector"
  assumes wf: "vec_wf rhs" and i: "0 \<le> i" "i < sz rhs" and j: "0 \<le> j" "j < sz rhs"
    and c: "rd2 m a b = Some c"
  shows "\<exists>rhs'. rhs_sub m a b i j rhs = Inr rhs' \<and>
           mem (va rhs') = sub_at c i j (mem (va rhs)) \<and> vec_wf rhs' \<and> sz rhs' = sz rhs"
proof -
  let ?x = "mem (va rhs)"
  let ?rhs' = "rhs\<lparr>va := store (va rhs) (sub_at c i j ?x)\<rparr>"
  have "rhs_sub m a b i j rhs = Inr ?rhs'"
    unfolding rhs_sub_def
    by (simp add: c vector_get_ok[OF wf j] vector_get_ok[OF wf i] vector_set_ok[OF wf i] sub_at_def)
  moreover have "vec_wf ?rhs'" by (rule vec_wf_store[OF wf]) (simp add: sub_at_def)
  moreover have "mem (va ?rhs') = sub_at c i j ?x"
    using vec_wfD(4)[OF wf] by (simp add: mem_store)
  ultimately show ?thesis by (intro exI[of _ ?rhs']) simp
qed

lemma rhs_div_ok:
  fixes rhs :: "'a::inverse vector"
  assumes wf: "vec_wf rhs" and i: "0 \<le> i" "i < sz rhs" and d: "rd2 m i 0 = Some d"
  shows "\<exists>rhs'. rhs_div m i rhs = Inr rhs' \<and>
           mem (va rhs') = div_at d i (mem (va rhs)) \<and> vec_wf rhs' \<and> sz rhs' = sz rhs"
proof -
  let ?x = "mem (va rhs)"
  let ?rhs' = "rhs\<lparr>va := store (va rhs) (div_at d i ?x)\<rparr>"
  have "rhs_div m i rhs = Inr ?rhs'"
    unfolding rhs_div_def
    by (simp add: d vector_get_ok[OF wf i] vector_set_ok[OF wf i] div_at_def)
  moreover have "vec_wf ?rhs'" by (rule vec_wf_store[OF wf]) (simp add: div_at_def)
  moreover have "mem (va ?rhs') = div_at d i ?x"
    using vec_wfD(4)[OF wf] by (simp add: mem_store)
  ultimately show ?thesis by (intro exI[of _ ?rhs']) simp
qed

lemma forward_Vector_ok:
  fixes rhs :: "'a::{minus,times} vector"
  assumes ok: "frame_ok rows cols s" and wf: "vec_wf rhs" and sz: "sz rhs = rows"
  shows "\<exists>rhs'. forward_Vector s rhs = Inr rhs' \<and>
           mem (va rhs') = forward_cells (mat (self s)) (lwbIdx s) rows (mem (va rhs)) \<and>
           vec_wf rhs' \<and> sz rhs' = rows"
proof -
  let ?L = "mat (self s)"
  let ?P = "\<lambda>(i::int) (v :: 'a vector). vec_wf v \<and> sz v = rows"
  let ?\<alpha> = "\<lambda>v :: 'a vector. mem (va v)"
  let ?inner = "\<lambda>i. fold (\<lambda>j. sub_at (ent ?L j (i - j)) i j) [lwbIdx s ! nat i..i - 1]"
  note d = frame_okD[OF ok]
  have "\<exists>rhs'. for_loop 0 rows
          (\<lambda>i rhs. case rd (lwbIdx s) i of
                   None \<Rightarrow> Inl (MemoryFault, rhs)
                 | Some lo \<Rightarrow> for_loop lo i (\<lambda>j. rhs_sub ?L j (i - j) i j) rhs) rhs = Inr rhs' \<and>
          ?\<alpha> rhs' = fold ?inner [0..rows - 1] (?\<alpha> rhs) \<and> ?P (max 0 rows) rhs'"
  proof (rule for_loop_fold[where P = ?P and \<alpha> = ?\<alpha> and f = ?inner])
    show "?P 0 rhs" using wf sz by simp
  next
    fix i and v :: "'a vector"
    assume i: "0 \<le> i" "i < rows" and P: "?P i v"
    let ?lo = "lwbIdx s ! nat i"
    have lo: "max 0 (i - cols + 1) \<le> ?lo" using frame_ok_lwb(1)[OF ok i] .
    have rl: "rd (lwbIdx s) i = Some ?lo" using i d(4) by (simp add: rd_nth)
    have "\<exists>v'. for_loop ?lo i (\<lambda>j. rhs_sub ?L j (i - j) i j) v = Inr v' \<and>
            ?\<alpha> v' = fold (\<lambda>j. sub_at (ent ?L j (i - j)) i j) [?lo..i - 1] (?\<alpha> v) \<and>
            ?P (max ?lo i) v'"
    proof (rule for_loop_fold[where P = ?P and \<alpha> = ?\<alpha>])
      show "?P ?lo v" using P by simp
    next
      fix j and w :: "'a vector"
      assume j: "?lo \<le> j" "j < i" and Pw: "?P j w"
      have j0: "0 \<le> j" "j < rws (self s)" "0 \<le> i - j" "i - j < cls (self s)"
        using j lo i d(2,3) by simp_all
      have c: "rd2 ?L j (i - j) = Some (ent ?L j (i - j))" using d(1) j0 by (rule rd2_wf)
      have wfw: "vec_wf w" and szw: "sz w = rows" using Pw by simp_all
      have "0 \<le> i" "i < sz w" "0 \<le> j" "j < sz w" using i j j0 szw by simp_all
      from rhs_sub_ok[OF wfw this c]
      show "\<exists>w'. rhs_sub ?L j (i - j) i j w = Inr w' \<and>
              ?\<alpha> w' = sub_at (ent ?L j (i - j)) i j (?\<alpha> w) \<and> ?P (j + 1) w'"
        using szw by auto
    qed
    then show "\<exists>v'. (case rd (lwbIdx s) i of
                   None \<Rightarrow> Inl (MemoryFault, v)
                 | Some lo \<Rightarrow> for_loop lo i (\<lambda>j. rhs_sub ?L j (i - j) i j) v) = Inr v' \<and>
          ?\<alpha> v' = ?inner i (?\<alpha> v) \<and> ?P (i + 1) v'"
      by (simp add: rl)
  qed
  then show ?thesis unfolding forward_Vector_def forward_cells_def d(2) by blast
qed

lemma scale_Vector_ok:
  fixes rhs :: "'a::inverse vector"
  assumes ok: "frame_ok rows cols s" and c: "1 \<le> cols" and wf: "vec_wf rhs" and sz: "sz rhs = rows"
  shows "\<exists>rhs'. scale_Vector s rhs = Inr rhs' \<and>
           mem (va rhs') = scale_cells (mat (self s)) rows (mem (va rhs)) \<and>
           vec_wf rhs' \<and> sz rhs' = rows"
proof -
  let ?L = "mat (self s)"
  let ?P = "\<lambda>(i::int) (v :: 'a vector). vec_wf v \<and> sz v = rows"
  let ?\<alpha> = "\<lambda>v :: 'a vector. mem (va v)"
  note d = frame_okD[OF ok]
  have "\<exists>rhs'. for_loop 0 rows (rhs_div ?L) rhs = Inr rhs' \<and>
          ?\<alpha> rhs' = fold (\<lambda>i. div_at (ent ?L i 0) i) [0..rows - 1] (?\<alpha> rhs) \<and>
          ?P (max 0 rows) rhs'"
  proof (rule for_loop_fold[where P = ?P and \<alpha> = ?\<alpha>])
    show "?P 0 rhs" using wf sz by simp
  next
    fix i and v :: "'a vector"
    assume i: "0 \<le> i" "i < rows" and P: "?P i v"
    have i0: "i < rws (self s)" "(0::int) \<le> 0" "0 < cls (self s)" using i c d(2,3) by simp_all
    have dd: "rd2 ?L i 0 = Some (ent ?L i 0)" using d(1) i(1) i0 by (rule rd2_wf)
    have wfv: "vec_wf v" and szv: "sz v = rows" using P by simp_all
    have "0 \<le> i" "i < sz v" using i szv by simp_all
    from rhs_div_ok[OF wfv this dd]
    show "\<exists>v'. rhs_div ?L i v = Inr v' \<and> ?\<alpha> v' = div_at (ent ?L i 0) i (?\<alpha> v) \<and> ?P (i + 1) v'"
      using szv by auto
  qed
  then show ?thesis unfolding scale_Vector_def scale_cells_def d(2) by blast
qed

lemma back_Vector_ok:
  fixes rhs :: "'a::{minus,times} vector"
  assumes ok: "frame_ok rows cols s" and wf: "vec_wf rhs" and sz: "sz rhs = rows"
  shows "\<exists>rhs'. back_Vector s rhs = Inr rhs' \<and>
           mem (va rhs') = back_cells (mat (self s)) rows cols (mem (va rhs)) \<and>
           vec_wf rhs' \<and> sz rhs' = rows"
proof -
  let ?L = "mat (self s)"
  let ?P = "\<lambda>(i::int) (v :: 'a vector). vec_wf v \<and> sz v = rows"
  let ?\<alpha> = "\<lambda>v :: 'a vector. mem (va v)"
  let ?inner = "\<lambda>i. fold (\<lambda>j. sub_at (ent ?L i (j - i)) i j) [i + 1..min (i + cols) rows - 1]"
  note d = frame_okD[OF ok]
  have "\<exists>rhs'. for_down (rows - 1) 0
          (\<lambda>i rhs. let upb = min (i + cols) rows
                 in for_loop (i + 1) upb (\<lambda>j. rhs_sub ?L i (j - i) i j) rhs) rhs = Inr rhs' \<and>
          ?\<alpha> rhs' = fold ?inner (rev [0..rows - 1]) (?\<alpha> rhs) \<and> ?P (min (rows - 1) (0 - 1)) rhs'"
  proof (rule for_down_fold[where P = ?P and \<alpha> = ?\<alpha> and f = ?inner])
    show "?P (rows - 1) rhs" using wf sz by simp
  next
    fix i and v :: "'a vector"
    assume i: "0 \<le> i" "i \<le> rows - 1" and P: "?P i v"
    have "\<exists>v'. for_loop (i + 1) (min (i + cols) rows) (\<lambda>j. rhs_sub ?L i (j - i) i j) v = Inr v' \<and>
            ?\<alpha> v' = fold (\<lambda>j. sub_at (ent ?L i (j - i)) i j) [i + 1..min (i + cols) rows - 1] (?\<alpha> v) \<and>
            ?P (max (i + 1) (min (i + cols) rows)) v'"
    proof (rule for_loop_fold[where P = ?P and \<alpha> = ?\<alpha>])
      show "?P (i + 1) v" using P by simp
    next
      fix j and w :: "'a vector"
      assume j: "i + 1 \<le> j" "j < min (i + cols) rows" and Pw: "?P j w"
      have j0: "0 \<le> i" "i < rws (self s)" "0 \<le> j - i" "j - i < cls (self s)"
        using j i d(2,3) by simp_all
      have c: "rd2 ?L i (j - i) = Some (ent ?L i (j - i))" using d(1) j0 by (rule rd2_wf)
      have wfw: "vec_wf w" and szw: "sz w = rows" using Pw by simp_all
      have "0 \<le> i" "i < sz w" "0 \<le> j" "j < sz w" using i j szw by simp_all
      from rhs_sub_ok[OF wfw this c]
      show "\<exists>w'. rhs_sub ?L i (j - i) i j w = Inr w' \<and>
              ?\<alpha> w' = sub_at (ent ?L i (j - i)) i j (?\<alpha> w) \<and> ?P (j + 1) w'"
        using szw by auto
    qed
    then show "\<exists>v'. (let upb = min (i + cols) rows
                 in for_loop (i + 1) upb (\<lambda>j. rhs_sub ?L i (j - i) i j) v) = Inr v' \<and>
          ?\<alpha> v' = ?inner i (?\<alpha> v) \<and> ?P (i - 1) v'"
      by (simp add: Let_def)
  qed
  then show ?thesis unfolding back_Vector_def back_cells_def d(2,3) by blast
qed

lemma solveLDLT_Vector_ok:
  fixes A :: "'a::{minus,times,inverse,abs,ord,numeral} matrix"
  assumes A: "mat_wf A" and c: "1 \<le> cls A" "cls A \<le> rws A"
    and wf: "vec_wf rhs" and sz: "sz rhs = rws A"
  shows "\<exists>A' rhs'. solveLDLT_Vector gl gr A rhs = Inr (A', rhs') \<and>
           mat_wf A' \<and> rws A' = rws A \<and> cls A' = cls A \<and>
           mat A' = fst (factor_of (rws A) (cls A) (mat A)) \<and>
           vec_wf rhs' \<and> sz rhs' = rws A \<and>
           mem (va rhs') =
             back_cells (mat A') (rws A) (cls A)
               (scale_cells (mat A') (rws A)
                  (forward_cells (mat A') (snd (factor_of (rws A) (cls A) (mat A))) (rws A)
                     (mem (va rhs))))"
proof -
  from ldlt_factor_ok[OF A c, of gl gr] obtain s where
    s: "ldlt_factor (ldlt_scratch gl gr A) = Inr s"
      "factors s = factor_of (rws A) (cls A) (mat A)" "frame_ok (rws A) (cls A) s"
    by blast
  note d = frame_okD[OF s(3)]
  from forward_Vector_ok[OF s(3) wf sz] obtain rhs1 where
    r1: "forward_Vector s rhs = Inr rhs1"
      "mem (va rhs1) = forward_cells (mat (self s)) (lwbIdx s) (rws A) (mem (va rhs))"
      "vec_wf rhs1" "sz rhs1 = rws A" by blast
  from scale_Vector_ok[OF s(3) c(1) r1(3,4)] obtain rhs2 where
    r2: "scale_Vector s rhs1 = Inr rhs2"
      "mem (va rhs2) = scale_cells (mat (self s)) (rws A) (mem (va rhs1))"
      "vec_wf rhs2" "sz rhs2 = rws A" by blast
  from back_Vector_ok[OF s(3) r2(3,4)] obtain rhs3 where
    r3: "back_Vector s rhs2 = Inr rhs3"
      "mem (va rhs3) = back_cells (mat (self s)) (rws A) (cls A) (mem (va rhs2))"
      "vec_wf rhs3" "sz rhs3 = rws A" by blast
  have pre: "(rws A < cls A) = False" "(sz rhs \<noteq> rws A) = False" using c sz by simp_all
  have res: "solveLDLT_Vector gl gr A rhs = Inr (self s, rhs3)"
    unfolding solveLDLT_Vector_def pre by (simp add: s(1) r1(1) r2(1) r3(1))
  have f: "mat (self s) = fst (factor_of (rws A) (cls A) (mat A))"
    "lwbIdx s = snd (factor_of (rws A) (cls A) (mat A))"
    using s(2) by (simp_all add: factors_def prod_eq_iff)
  show ?thesis
    using res d(1,2,3) f r3(2,3,4) r2(2) r1(2) by (intro exI[of _ "self s"] exI[of _ rhs3]) simp
qed


subsection \<open>The diagonal case\<close>

lemma fold_fixed: "(\<And>i. i \<in> set xs \<Longrightarrow> f i s = s) \<Longrightarrow> fold f xs s = s"
  by (induction xs) simp_all

lemma scale_cells_nth:
  assumes "rows \<le> int (length x)" "0 \<le> k" "k < rows"
  shows "scale_cells L rows x ! nat k = x ! nat k / ent L k 0"
    and "length (scale_cells L rows x) = length x"
proof -
  have gen: "\<And>n. int n \<le> rows \<Longrightarrow>
     length (fold (\<lambda>i. div_at (ent L i 0) i) [0..int n - 1] x) = length x \<and>
     (\<forall>k. 0 \<le> k \<and> k < rows \<longrightarrow>
        fold (\<lambda>i. div_at (ent L i 0) i) [0..int n - 1] x ! nat k =
          (if k < int n then x ! nat k / ent L k 0 else x ! nat k))"
  proof -
    fix n show "int n \<le> rows \<Longrightarrow>
     length (fold (\<lambda>i. div_at (ent L i 0) i) [0..int n - 1] x) = length x \<and>
     (\<forall>k. 0 \<le> k \<and> k < rows \<longrightarrow>
        fold (\<lambda>i. div_at (ent L i 0) i) [0..int n - 1] x ! nat k =
          (if k < int n then x ! nat k / ent L k 0 else x ! nat k))"
    proof (induction n)
      case 0
      then show ?case by simp
    next
      case (Suc n)
      let ?y = "fold (\<lambda>i. div_at (ent L i 0) i) [0..int n - 1] x"
      have IH: "length ?y = length x"
        "\<And>k. 0 \<le> k \<Longrightarrow> k < rows \<Longrightarrow>
            ?y ! nat k = (if k < int n then x ! nat k / ent L k 0 else x ! nat k)"
        using Suc by simp_all
      have up: "[0..int (Suc n) - 1] = [0..int n - 1] @ [int n]"
        using upto_rec2[of 0 "int n"] by simp
      have eq: "fold (\<lambda>i. div_at (ent L i 0) i) [0..int (Suc n) - 1] x =
                  ?y[n := ?y ! n / ent L (int n) 0]"
        unfolding up by (simp add: div_at_def)
      have n: "n < length ?y" using Suc.prems assms(1) IH(1) by simp
      have yn: "?y ! n = x ! n" using IH(2)[of "int n"] Suc.prems by simp
      show ?case
      proof (intro conjI allI impI)
        show "length (fold (\<lambda>i. div_at (ent L i 0) i) [0..int (Suc n) - 1] x) = length x"
          unfolding eq using IH(1) by simp
      next
        fix k assume k: "0 \<le> k \<and> k < rows"
        show "fold (\<lambda>i. div_at (ent L i 0) i) [0..int (Suc n) - 1] x ! nat k =
                (if k < int (Suc n) then x ! nat k / ent L k 0 else x ! nat k)"
        proof (cases "k = int n")
          case True
          then show ?thesis unfolding eq using n yn by simp
        next
          case False
          then have "nat k \<noteq> n" using k by arith
          then have "?y[n := ?y ! n / ent L (int n) 0] ! nat k = ?y ! nat k" by simp
          then show ?thesis unfolding eq using IH(2)[of k] k False by simp
        qed
      qed
    qed
  qed
  have rows: "int (nat rows) = rows" using assms(2,3) by simp
  from gen[of "nat rows"] rows
  have l: "length (fold (\<lambda>i. div_at (ent L i 0) i) [0..rows - 1] x) = length x"
    and v: "\<And>k. 0 \<le> k \<Longrightarrow> k < rows \<Longrightarrow>
        fold (\<lambda>i. div_at (ent L i 0) i) [0..rows - 1] x ! nat k = x ! nat k / ent L k 0"
    by simp_all
  show "scale_cells L rows x ! nat k = x ! nat k / ent L k 0"
    unfolding scale_cells_def using v[OF assms(2,3)] .
  show "length (scale_cells L rows x) = length x"
    unfolding scale_cells_def using l .
qed

text \<open>With one column the band holds the diagonal only: every loop over the band is
  empty.\<close>

lemma lwb_init_diagonal: "0 \<le> i \<Longrightarrow> i < rows \<Longrightarrow> lwb_init rows 1 ! nat i = i"
  using nth_lwb_init[of i rows 1] by auto

lemma row_step_diagonal:
  fixes L :: "'a::{minus,times,inverse,abs,ord,numeral} list list"
  assumes "0 \<le> i" "i < rows" "rows = int (length L)"
  shows "row_step rows 1 i (L, lwb_init rows 1) = (L, lwb_init rows 1)"
proof -
  have "pivot_of L (lwb_init rows 1) i = ent L i 0"
    unfolding pivot_of_def lwb_init_diagonal[OF assms(1,2)] by simp
  moreover have "put L i 0 (ent L i 0) = L" using assms by (simp add: put_same)
  moreover have "[i + 1..min (i + 1) rows - 1] = []" by simp
  ultimately show ?thesis by (simp add: row_step_def Let_def)
qed

lemma factor_of_diagonal:
  fixes L :: "'a::{minus,times,inverse,abs,ord,numeral} list list"
  assumes "rows = int (length L)"
  shows "factor_of rows 1 L = (L, lwb_init rows 1)"
  unfolding factor_of_def
  by (rule fold_fixed) (use assms in \<open>simp add: row_step_diagonal\<close>)

lemma forward_cells_diagonal: "forward_cells L (lwb_init rows 1) rows x = x"
  unfolding forward_cells_def
  by (rule fold_fixed) (simp add: lwb_init_diagonal)

lemma back_cells_diagonal: "back_cells L rows 1 x = x"
  unfolding back_cells_def
  by (rule fold_fixed) simp

text \<open>Claim C2. For a matrix with one column and at least one row, and a right-hand
  side vector of \<open>rws\<close> entries, \<open>solveLDLT\<close> returns the coefficient matrix as it
  was, every diagonal entry with it, and a right-hand side whose entry \<open>i\<close> is the
  entry it had divided by \<open>A[i][0]\<close>, for every \<open>i\<close>.\<close>

theorem solveLDLT_diagonal:
  fixes A :: "'a::{minus,times,inverse,abs,ord,numeral} matrix"
  assumes A: "mat_wf A" and c: "cls A = 1" "1 \<le> rws A"
    and wf: "vec_wf rhs" and sz: "sz rhs = rws A"
  shows "\<exists>rhs'. solveLDLT_Vector gl gr A rhs = Inr (A, rhs') \<and> sz rhs' = sz rhs \<and>
           (\<forall>i. 0 \<le> i \<and> i < rws A \<longrightarrow>
              (\<exists>x d. vector_get rhs i = Inr x \<and> rd2 (mat A) i 0 = Some d \<and>
                     vector_get rhs' i = Inr (x / d)))"
proof -
  have c1: "1 \<le> cls A" "cls A \<le> rws A" using c by simp_all
  have len: "rws A = int (length (mat A))" using mat_wf_dims[OF A] by simp
  from solveLDLT_Vector_ok[OF A c1 wf sz, of gl gr] obtain A' rhs' where
    r: "solveLDLT_Vector gl gr A rhs = Inr (A', rhs')" "rws A' = rws A" "cls A' = cls A"
      "mat A' = fst (factor_of (rws A) (cls A) (mat A))" "vec_wf rhs'" "sz rhs' = rws A"
      "mem (va rhs') =
             back_cells (mat A') (rws A) (cls A)
               (scale_cells (mat A') (rws A)
                  (forward_cells (mat A') (snd (factor_of (rws A) (cls A) (mat A))) (rws A)
                     (mem (va rhs))))"
    by blast
  have f: "factor_of (rws A) 1 (mat A) = (mat A, lwb_init (rws A) 1)"
    by (rule factor_of_diagonal[OF len])
  have "mat A' = mat A" using r(4) f c(1) by simp
  then have A': "A' = A" using r(2,3) by simp
  have cells: "mem (va rhs') = scale_cells (mat A) (rws A) (mem (va rhs))"
    using r(7) unfolding A' c(1) f by (simp add: forward_cells_diagonal back_cells_diagonal)
  have lx: "rws A \<le> int (length (mem (va rhs)))" using vec_wfD[OF wf] sz by simp
  have "\<forall>i. 0 \<le> i \<and> i < rws A \<longrightarrow>
              (\<exists>x d. vector_get rhs i = Inr x \<and> rd2 (mat A) i 0 = Some d \<and>
                     vector_get rhs' i = Inr (x / d))"
  proof (intro allI impI)
    fix i assume i: "0 \<le> i \<and> i < rws A"
    then have i0: "0 \<le> i" "i < rws A" by simp_all
    have g: "vector_get rhs i = Inr (mem (va rhs) ! nat i)"
      using wf i0 sz by (rule_tac vector_get_ok) simp_all
    have d: "rd2 (mat A) i 0 = Some (ent (mat A) i 0)"
      using A i0 c(1) by (rule_tac rd2_wf) simp_all
    have "vector_get rhs' i = Inr (mem (va rhs') ! nat i)"
      using r(5) i0 r(6) by (rule_tac vector_get_ok) simp_all
    then have g': "vector_get rhs' i = Inr (mem (va rhs) ! nat i / ent (mat A) i 0)"
      using cells scale_cells_nth(1)[OF lx i0, of "mat A"] by simp
    show "\<exists>x d. vector_get rhs i = Inr x \<and> rd2 (mat A) i 0 = Some d \<and>
                     vector_get rhs' i = Inr (x / d)"
      by (intro exI[of _ "mem (va rhs) ! nat i"] exI[of _ "ent (mat A) i 0"] conjI g d g')
  qed
  then show ?thesis using r(1,6) A' sz by (intro exI[of _ rhs']) simp
qed

theorem solveLDLT_diagonal_witness:
  "mat_wf \<lparr>mat = [[2], [4 :: real]], rws = 2, cls = 1\<rparr> \<and>
   vec_wf \<lparr>va = Some \<lparr>addr = 1, cells = [6, 8 :: real]\<rparr>, sz = 2, cap = 2\<rparr> \<and>
   (\<exists>rhs'. solveLDLT_Vector int real \<lparr>mat = [[2], [4]], rws = 2, cls = 1\<rparr>
              \<lparr>va = Some \<lparr>addr = 1, cells = [6, 8]\<rparr>, sz = 2, cap = 2\<rparr> =
              Inr (\<lparr>mat = [[2], [4]], rws = 2, cls = 1\<rparr>, rhs') \<and>
            vector_get rhs' 0 = Inr 3 \<and> vector_get rhs' 1 = Inr 2)"
proof -
  let ?A = "\<lparr>mat = [[2], [4 :: real]], rws = 2, cls = 1\<rparr>"
  let ?b = "\<lparr>va = Some \<lparr>addr = 1, cells = [6, 8 :: real]\<rparr>, sz = 2, cap = 2\<rparr>"
  have a: "mat_wf ?A" by (rule mat_wfI) auto
  have b: "vec_wf ?b" by (simp add: vec_wf_def vec_inv_def mem_def)
  have c: "cls ?A = 1" "1 \<le> rws ?A" "sz ?b = rws ?A" by simp_all
  from solveLDLT_diagonal[OF a c(1,2) b c(3), of int real] obtain rhs' where
    r: "solveLDLT_Vector int real ?A ?b = Inr (?A, rhs')"
    and v: "\<And>i. 0 \<le> i \<Longrightarrow> i < 2 \<Longrightarrow>
              \<exists>x d. vector_get ?b i = Inr x \<and> rd2 (mat ?A) i 0 = Some d \<and>
                     vector_get rhs' i = Inr (x / d)"
    by auto
  have "vector_get rhs' 0 = Inr 3"
    using v[of 0] by (simp add: vector_get_def rd_def rd2_def mem_def)
  moreover have "vector_get rhs' 1 = Inr 2"
    using v[of 1] by (simp add: vector_get_def rd_def rd2_def mem_def)
  ultimately show ?thesis using a b r by blast
qed

subsection \<open>The substitution passes on a right-hand side matrix\<close>

lemma mat_wf_dims_row:
  assumes "mat_wf R" "0 \<le> i" "i < rws R"
  shows "nat i < length (mat R)" "length (mat R ! nat i) = nat (cls R)"
proof -
  show n: "nat i < length (mat R)" using mat_wf_dims[OF assms(1)] assms(2,3) by arith
  show "length (mat R ! nat i) = nat (cls R)" using mat_wf_row[OF assms(1) n] by simp
qed

lemma mat_wf_set_row:
  assumes "mat_wf R" "int (length row) = cls R"
  shows "mat_wf (R\<lparr>mat := (mat R)[k := row]\<rparr>)"
proof (rule mat_wfI)
  fix x assume "x \<in> set (mat (R\<lparr>mat := (mat R)[k := row]\<rparr>))"
  then have "x \<in> set ((mat R)[k := row])" by simp
  then have "x \<in> insert row (set (mat R))"
    using set_update_subset_insert[of "mat R" k row] by (rule rev_subsetD)
  then have "x = row \<or> x \<in> set (mat R)" by blast
  then have "int (length x) = cls R"
  proof
    assume "x = row" then show ?thesis using assms(2) by simp
  next
    assume "x \<in> set (mat R)"
    then show ?thesis using assms(1) unfolding mat_wf_def by blast
  qed
  then show "int (length x) = cls (R\<lparr>mat := (mat R)[k := row]\<rparr>)" by simp
qed (use mat_wf_dims[OF assms(1)] in simp_all)

text \<open>The loop over the columns of the right-hand side rewrites row \<open>i\<close>.\<close>

lemma row_loop:
  fixes R :: "'a matrix"
  assumes R: "mat_wf R" and i: "0 \<le> i" "i < rws R"
    and body: "\<And>k t. 0 \<le> k \<Longrightarrow> k < cls R \<Longrightarrow> rws t = rws R \<Longrightarrow> cls t = cls R \<Longrightarrow>
       mat t ! nat i ! nat k = mat R ! nat i ! nat k \<Longrightarrow> length (mat t ! nat i) = nat (cls R) \<Longrightarrow>
       length (mat t) = length (mat R) \<Longrightarrow>
       (\<And>n. n \<noteq> nat i \<Longrightarrow> mat t ! n = mat R ! n) \<Longrightarrow>
       body k t = Inr (t\<lparr>mat := (mat t)[nat i := (mat t ! nat i)[nat k := g (nat k)]]\<rparr>)"
  shows "for_loop 0 (cls R) body R = Inr (R\<lparr>mat := (mat R)[nat i := map g [0..<nat (cls R)]]\<rparr>)"
proof -
  let ?n = "nat (cls R)"
  let ?row = "\<lambda>k. map (\<lambda>n. if n < nat k then g n else mat R ! nat i ! n) [0..<?n]"
  let ?I = "\<lambda>k t. t = R\<lparr>mat := (mat R)[nat i := ?row k]\<rparr>"
  note dr = mat_wf_dims_row[OF R i]
  have c0: "0 \<le> cls R" using mat_wf_dims[OF R] by simp
  have "\<exists>t. for_loop 0 (cls R) body R = Inr t \<and> ?I (max 0 (cls R)) t"
  proof (rule for_loop_rule[where I = ?I])
    have "?row 0 = mat R ! nat i"
      by (rule nth_equalityI) (simp_all add: dr(2))
    then show "?I 0 R" by simp
  next
    fix k and t :: "'a matrix"
    assume k: "0 \<le> k" "k < cls R" and I: "?I k t"
    have mt: "mat t = (mat R)[nat i := ?row k]" "rws t = rws R" "cls t = cls R"
      using I by simp_all
    have ti: "mat t ! nat i = ?row k" unfolding mt(1) using dr(1) by simp
    have kn: "nat k < ?n" using k by simp
    have a: "mat t ! nat i ! nat k = mat R ! nat i ! nat k" unfolding ti using kn by simp
    have b: "length (mat t ! nat i) = ?n" unfolding ti by simp
    have c: "length (mat t) = length (mat R)" unfolding mt(1) by simp
    have d: "\<And>n. n \<noteq> nat i \<Longrightarrow> mat t ! n = mat R ! n" unfolding mt(1) by simp
    have e: "body k t = Inr (t\<lparr>mat := (mat t)[nat i := (mat t ! nat i)[nat k := g (nat k)]]\<rparr>)"
      using body[OF k mt(2,3) a b c d] .
    have "(?row k)[nat k := g (nat k)] = ?row (k + 1)"
    proof (rule nth_equalityI)
      show "length ((?row k)[nat k := g (nat k)]) = length (?row (k + 1))" by simp
    next
      fix n assume "n < length ((?row k)[nat k := g (nat k)])"
      then have n: "n < ?n" by simp
      show "(?row k)[nat k := g (nat k)] ! n = ?row (k + 1) ! n"
      proof (cases "n = nat k")
        case True
        then show ?thesis using n k by (simp add: nat_add_distrib)
      next
        case False
        then have "(n < nat (k + 1)) = (n < nat k)" using k by arith
        then show ?thesis using n False by simp
      qed
    qed
    then have "(mat t)[nat i := (mat t ! nat i)[nat k := g (nat k)]] = (mat R)[nat i := ?row (k + 1)]"
      unfolding ti unfolding mt(1) by simp
    then have "?I (k + 1) (t\<lparr>mat := (mat t)[nat i := (mat t ! nat i)[nat k := g (nat k)]]\<rparr>)"
      using I by simp
    then show "\<exists>t'. body k t = Inr t' \<and> ?I (k + 1) t'" using e by blast
  qed
  moreover have "max 0 (cls R) = cls R" using c0 by simp
  moreover have "?row (cls R) = map g [0..<?n]" by (rule nth_equalityI) simp_all
  ultimately show ?thesis by simp
qed

lemma row_sub_ok:
  fixes R :: "'a::{minus,times} matrix"
  assumes R: "mat_wf R" and i: "0 \<le> i" "i < rws R" and j: "0 \<le> j" "j < rws R" and ij: "i \<noteq> j"
  shows "row_sub m i j R = Inr (R\<lparr>mat := row_sub_at m i j (mat R)\<rparr>)"
proof -
  let ?g = "\<lambda>n. mat R ! nat i ! n - m * mat R ! nat j ! n"
  note di = mat_wf_dims_row[OF R i] and dj = mat_wf_dims_row[OF R j]
  have nij: "nat j \<noteq> nat i" using i j ij by arith
  have "for_loop 0 (cls R)
       (\<lambda>k rhs. case rd2 (mat rhs) j k of
                   None \<Rightarrow> Inl (MemoryFault, rhs)
                 | Some xj \<Rightarrow>
                     (case rd2 (mat rhs) i k of
                        None \<Rightarrow> Inl (MemoryFault, rhs)
                      | Some xi \<Rightarrow>
                          (case wr2 (mat rhs) i k (xi - m * xj) of
                             None \<Rightarrow> Inl (MemoryFault, rhs)
                           | Some m' \<Rightarrow> Inr (rhs\<lparr>mat := m'\<rparr>)))) R =
        Inr (R\<lparr>mat := (mat R)[nat i := map ?g [0..<nat (cls R)]]\<rparr>)"
  proof (rule row_loop[OF R i, where g = ?g])
    fix k and t :: "'a matrix"
    assume k: "0 \<le> k" "k < cls R" and t: "rws t = rws R" "cls t = cls R"
      "mat t ! nat i ! nat k = mat R ! nat i ! nat k" "length (mat t ! nat i) = nat (cls R)"
      "length (mat t) = length (mat R)" and other: "\<And>n. n \<noteq> nat i \<Longrightarrow> mat t ! n = mat R ! n"
    have tj: "mat t ! nat j = mat R ! nat j" using other[OF nij] .
    have r1: "rd2 (mat t) j k = Some (mat R ! nat j ! nat k)"
      using rd2_nth[of j "mat t" k] j k t(5) tj di dj by simp
    have r2: "rd2 (mat t) i k = Some (mat R ! nat i ! nat k)"
      using rd2_nth[of i "mat t" k] i k t di by simp
    have w: "\<And>x. wr2 (mat t) i k x = Some ((mat t)[nat i := (mat t ! nat i)[nat k := x]])"
      using wr2_upd[of i "mat t" k] i k t di by simp
    show "(case rd2 (mat t) j k of
                   None \<Rightarrow> Inl (MemoryFault, t)
                 | Some xj \<Rightarrow>
                     (case rd2 (mat t) i k of
                        None \<Rightarrow> Inl (MemoryFault, t)
                      | Some xi \<Rightarrow>
                          (case wr2 (mat t) i k (xi - m * xj) of
                             None \<Rightarrow> Inl (MemoryFault, t)
                           | Some m' \<Rightarrow> Inr (t\<lparr>mat := m'\<rparr>)))) =
          Inr (t\<lparr>mat := (mat t)[nat i := (mat t ! nat i)[nat k := ?g (nat k)]]\<rparr>)"
      by (simp add: r1 r2 w)
  qed
  moreover have "map ?g [0..<nat (cls R)] =
                   map2 (\<lambda>xi xj. xi - m * xj) (mat R ! nat i) (mat R ! nat j)"
    by (rule nth_equalityI) (simp_all add: di dj)
  ultimately show ?thesis unfolding row_sub_def row_sub_at_def by simp
qed

lemma row_div_ok:
  fixes R :: "'a::inverse matrix"
  assumes R: "mat_wf R" and i: "0 \<le> i" "i < rws R"
  shows "row_div d i R = Inr (R\<lparr>mat := row_div_at d i (mat R)\<rparr>)"
proof -
  let ?g = "\<lambda>n. mat R ! nat i ! n / d"
  note di = mat_wf_dims_row[OF R i]
  have "for_loop 0 (cls R)
       (\<lambda>j rhs. case rd2 (mat rhs) i j of
                   None \<Rightarrow> Inl (MemoryFault, rhs)
                 | Some xi \<Rightarrow>
                     (case wr2 (mat rhs) i j (xi / d) of
                        None \<Rightarrow> Inl (MemoryFault, rhs)
                      | Some m' \<Rightarrow> Inr (rhs\<lparr>mat := m'\<rparr>))) R =
        Inr (R\<lparr>mat := (mat R)[nat i := map ?g [0..<nat (cls R)]]\<rparr>)"
  proof (rule row_loop[OF R i, where g = ?g])
    fix k and t :: "'a matrix"
    assume k: "0 \<le> k" "k < cls R" and t: "rws t = rws R" "cls t = cls R"
      "mat t ! nat i ! nat k = mat R ! nat i ! nat k" "length (mat t ! nat i) = nat (cls R)"
      "length (mat t) = length (mat R)"
    have r2: "rd2 (mat t) i k = Some (mat R ! nat i ! nat k)"
      using rd2_nth[of i "mat t" k] i k t di by simp
    have w: "\<And>x. wr2 (mat t) i k x = Some ((mat t)[nat i := (mat t ! nat i)[nat k := x]])"
      using wr2_upd[of i "mat t" k] i k t di by simp
    show "(case rd2 (mat t) i k of
                   None \<Rightarrow> Inl (MemoryFault, t)
                 | Some xi \<Rightarrow>
                     (case wr2 (mat t) i k (xi / d) of
                        None \<Rightarrow> Inl (MemoryFault, t)
                      | Some m' \<Rightarrow> Inr (t\<lparr>mat := m'\<rparr>))) =
          Inr (t\<lparr>mat := (mat t)[nat i := (mat t ! nat i)[nat k := ?g (nat k)]]\<rparr>)"
      by (simp add: r2 w)
  qed
  moreover have "map ?g [0..<nat (cls R)] = map (\<lambda>xi. xi / d) (mat R ! nat i)"
    by (rule nth_equalityI) (simp_all add: di)
  ultimately show ?thesis unfolding row_div_def row_div_at_def by simp
qed

lemma mat_wf_row_sub_at:
  assumes "mat_wf R" "0 \<le> i" "i < rws R" "0 \<le> j" "j < rws R"
  shows "mat_wf (R\<lparr>mat := row_sub_at m i j (mat R)\<rparr>)"
  unfolding row_sub_at_def
  by (rule mat_wf_set_row[OF assms(1)])
     (use mat_wf_dims_row[OF assms(1,2,3)] mat_wf_dims_row[OF assms(1,4,5)] mat_wf_dims[OF assms(1)] in simp)

lemma mat_wf_row_div_at:
  assumes "mat_wf R" "0 \<le> i" "i < rws R"
  shows "mat_wf (R\<lparr>mat := row_div_at d i (mat R)\<rparr>)"
  unfolding row_div_at_def
  by (rule mat_wf_set_row[OF assms(1)])
     (use mat_wf_dims_row[OF assms] mat_wf_dims[OF assms(1)] in simp)

lemma forward_Matrix_ok:
  fixes R :: "'a::{minus,times} matrix"
  assumes ok: "frame_ok rows cols s" and R: "mat_wf R" and rr: "rws R = rows"
  shows "\<exists>R'. forward_Matrix s R = Inr R' \<and>
           mat R' = forward_rows (mat (self s)) (lwbIdx s) rows (mat R) \<and>
           mat_wf R' \<and> rws R' = rows \<and> cls R' = cls R"
proof -
  let ?L = "mat (self s)"
  let ?P = "\<lambda>(i::int) (t :: 'a matrix). mat_wf t \<and> rws t = rows \<and> cls t = cls R"
  let ?inner = "\<lambda>i. fold (\<lambda>j. row_sub_at (ent ?L j (i - j)) i j) [lwbIdx s ! nat i..i - 1]"
  let ?jbody = "\<lambda>i j rhs. case rd2 ?L j (i - j) of
                                   None \<Rightarrow> Inl (MemoryFault, rhs)
                                 | Some m \<Rightarrow> row_sub m i j rhs"
  note d = frame_okD[OF ok]
  have "\<exists>R'. for_loop 0 rows
          (\<lambda>i rhs. case rd (lwbIdx s) i of
                   None \<Rightarrow> Inl (MemoryFault, rhs)
                 | Some lo \<Rightarrow> for_loop lo i (?jbody i) rhs) R = Inr R' \<and>
          mat R' = fold ?inner [0..rows - 1] (mat R) \<and> ?P (max 0 rows) R'"
  proof (rule for_loop_fold[where P = ?P and \<alpha> = mat and f = ?inner])
    show "?P 0 R" using R rr by simp
  next
    fix i and v :: "'a matrix"
    assume i: "0 \<le> i" "i < rows" and P: "?P i v"
    let ?lo = "lwbIdx s ! nat i"
    have lo: "max 0 (i - cols + 1) \<le> ?lo" using frame_ok_lwb(1)[OF ok i] .
    have rl: "rd (lwbIdx s) i = Some ?lo" using i d(4) by (simp add: rd_nth)
    have "\<exists>v'. for_loop ?lo i (?jbody i) v = Inr v' \<and>
            mat v' = fold (\<lambda>j. row_sub_at (ent ?L j (i - j)) i j) [?lo..i - 1] (mat v) \<and>
            ?P (max ?lo i) v'"
    proof (rule for_loop_fold[where P = ?P and \<alpha> = mat])
      show "?P ?lo v" using P by simp
    next
      fix j and w :: "'a matrix"
      assume j: "?lo \<le> j" "j < i" and Pw: "?P j w"
      have j0: "0 \<le> j" "j < rws (self s)" "0 \<le> i - j" "i - j < cls (self s)"
        using j lo i d(2,3) by simp_all
      have c: "rd2 ?L j (i - j) = Some (ent ?L j (i - j))" using d(1) j0 by (rule rd2_wf)
      have wfw: "mat_wf w" and rw: "rws w = rows" "cls w = cls R" using Pw by simp_all
      have b: "0 \<le> i" "i < rws w" "0 \<le> j" "j < rws w" "i \<noteq> j" using i j j0 rw by simp_all
      have "?jbody i j w = Inr (w\<lparr>mat := row_sub_at (ent ?L j (i - j)) i j (mat w)\<rparr>)"
        using row_sub_ok[OF wfw b] by (simp add: c)
      moreover have "mat_wf (w\<lparr>mat := row_sub_at (ent ?L j (i - j)) i j (mat w)\<rparr>)"
        using mat_wf_row_sub_at[OF wfw b(1,2,3,4)] .
      ultimately show "\<exists>w'. ?jbody i j w = Inr w' \<and>
              mat w' = row_sub_at (ent ?L j (i - j)) i j (mat w) \<and> ?P (j + 1) w'"
        using rw by simp
    qed
    then show "\<exists>v'. (case rd (lwbIdx s) i of
                   None \<Rightarrow> Inl (MemoryFault, v)
                 | Some lo \<Rightarrow> for_loop lo i (?jbody i) v) = Inr v' \<and>
          mat v' = ?inner i (mat v) \<and> ?P (i + 1) v'"
      by (simp add: rl)
  qed
  then show ?thesis unfolding forward_Matrix_def forward_rows_def d(2) by blast
qed

lemma scale_Matrix_ok:
  fixes R :: "'a::inverse matrix"
  assumes ok: "frame_ok rows cols s" and c: "1 \<le> cols" and R: "mat_wf R" and rr: "rws R = rows"
  shows "\<exists>R'. scale_Matrix s R = Inr R' \<and>
           mat R' = scale_rows (mat (self s)) rows (mat R) \<and>
           mat_wf R' \<and> rws R' = rows \<and> cls R' = cls R"
proof -
  let ?L = "mat (self s)"
  let ?P = "\<lambda>(i::int) (t :: 'a matrix). mat_wf t \<and> rws t = rows \<and> cls t = cls R"
  let ?body = "\<lambda>i rhs. case rd2 ?L i 0 of
                   None \<Rightarrow> Inl (MemoryFault, rhs)
                 | Some d \<Rightarrow> row_div d i rhs"
  note d = frame_okD[OF ok]
  have "\<exists>R'. for_loop 0 rows ?body R = Inr R' \<and>
          mat R' = fold (\<lambda>i. row_div_at (ent ?L i 0) i) [0..rows - 1] (mat R) \<and>
          ?P (max 0 rows) R'"
  proof (rule for_loop_fold[where P = ?P and \<alpha> = mat])
    show "?P 0 R" using R rr by simp
  next
    fix i and v :: "'a matrix"
    assume i: "0 \<le> i" "i < rows" and P: "?P i v"
    have i0: "i < rws (self s)" "(0::int) \<le> 0" "0 < cls (self s)" using i c d(2,3) by simp_all
    have dd: "rd2 ?L i 0 = Some (ent ?L i 0)" using d(1) i(1) i0 by (rule rd2_wf)
    have wfv: "mat_wf v" and rv: "rws v = rows" "cls v = cls R" using P by simp_all
    have b: "0 \<le> i" "i < rws v" using i rv by simp_all
    have "?body i v = Inr (v\<lparr>mat := row_div_at (ent ?L i 0) i (mat v)\<rparr>)"
      using row_div_ok[OF wfv b] by (simp add: dd)
    moreover have "mat_wf (v\<lparr>mat := row_div_at (ent ?L i 0) i (mat v)\<rparr>)"
      using mat_wf_row_div_at[OF wfv b] .
    ultimately show "\<exists>v'. ?body i v = Inr v' \<and> mat v' = row_div_at (ent ?L i 0) i (mat v) \<and>
                      ?P (i + 1) v'"
      using rv by simp
  qed
  then show ?thesis unfolding scale_Matrix_def scale_rows_def d(2) by blast
qed

lemma back_Matrix_ok:
  fixes R :: "'a::{minus,times} matrix"
  assumes ok: "frame_ok rows cols s" and R: "mat_wf R" and rr: "rws R = rows"
  shows "\<exists>R'. back_Matrix s R = Inr R' \<and>
           mat R' = back_rows (mat (self s)) rows cols (mat R) \<and>
           mat_wf R' \<and> rws R' = rows \<and> cls R' = cls R"
proof -
  let ?L = "mat (self s)"
  let ?P = "\<lambda>(i::int) (t :: 'a matrix). mat_wf t \<and> rws t = rows \<and> cls t = cls R"
  let ?inner = "\<lambda>i. fold (\<lambda>j. row_sub_at (ent ?L i (j - i)) i j) [i + 1..min (i + cols) rows - 1]"
  let ?jbody = "\<lambda>i j rhs. case rd2 ?L i (j - i) of
                                  None \<Rightarrow> Inl (MemoryFault, rhs)
                                | Some m \<Rightarrow> row_sub m i j rhs"
  note d = frame_okD[OF ok]
  have "\<exists>R'. for_down (rows - 1) 0
          (\<lambda>i rhs. let upb = min (i + cols) rows
                 in for_loop (i + 1) upb (?jbody i) rhs) R = Inr R' \<and>
          mat R' = fold ?inner (rev [0..rows - 1]) (mat R) \<and> ?P (min (rows - 1) (0 - 1)) R'"
  proof (rule for_down_fold[where P = ?P and \<alpha> = mat and f = ?inner])
    show "?P (rows - 1) R" using R rr by simp
  next
    fix i and v :: "'a matrix"
    assume i: "0 \<le> i" "i \<le> rows - 1" and P: "?P i v"
    have "\<exists>v'. for_loop (i + 1) (min (i + cols) rows) (?jbody i) v = Inr v' \<and>
            mat v' = fold (\<lambda>j. row_sub_at (ent ?L i (j - i)) i j) [i + 1..min (i + cols) rows - 1] (mat v) \<and>
            ?P (max (i + 1) (min (i + cols) rows)) v'"
    proof (rule for_loop_fold[where P = ?P and \<alpha> = mat])
      show "?P (i + 1) v" using P by simp
    next
      fix j and w :: "'a matrix"
      assume j: "i + 1 \<le> j" "j < min (i + cols) rows" and Pw: "?P j w"
      have j0: "0 \<le> i" "i < rws (self s)" "0 \<le> j - i" "j - i < cls (self s)"
        using j i d(2,3) by simp_all
      have c: "rd2 ?L i (j - i) = Some (ent ?L i (j - i))" using d(1) j0 by (rule rd2_wf)
      have wfw: "mat_wf w" and rw: "rws w = rows" "cls w = cls R" using Pw by simp_all
      have b: "0 \<le> i" "i < rws w" "0 \<le> j" "j < rws w" "i \<noteq> j" using i j rw by simp_all
      have "?jbody i j w = Inr (w\<lparr>mat := row_sub_at (ent ?L i (j - i)) i j (mat w)\<rparr>)"
        using row_sub_ok[OF wfw b] by (simp add: c)
      moreover have "mat_wf (w\<lparr>mat := row_sub_at (ent ?L i (j - i)) i j (mat w)\<rparr>)"
        using mat_wf_row_sub_at[OF wfw b(1,2,3,4)] .
      ultimately show "\<exists>w'. ?jbody i j w = Inr w' \<and>
              mat w' = row_sub_at (ent ?L i (j - i)) i j (mat w) \<and> ?P (j + 1) w'"
        using rw by simp
    qed
    then show "\<exists>v'. (let upb = min (i + cols) rows
                 in for_loop (i + 1) upb (?jbody i) v) = Inr v' \<and>
          mat v' = ?inner i (mat v) \<and> ?P (i - 1) v'"
      by (simp add: Let_def)
  qed
  then show ?thesis unfolding back_Matrix_def back_rows_def d(2,3) by blast
qed

lemma solveLDLT_Matrix_ok:
  fixes A :: "'a::{minus,times,inverse,abs,ord,numeral} matrix"
  assumes A: "mat_wf A" and c: "1 \<le> cls A" "cls A \<le> rws A"
    and R: "mat_wf R" and rr: "rws R = rws A"
  shows "\<exists>A' R'. solveLDLT_Matrix gl gr A R = Inr (A', R') \<and>
           mat_wf A' \<and> rws A' = rws A \<and> cls A' = cls A \<and>
           mat A' = fst (factor_of (rws A) (cls A) (mat A)) \<and>
           mat_wf R' \<and> rws R' = rws A \<and> cls R' = cls R \<and>
           mat R' =
             back_rows (mat A') (rws A) (cls A)
               (scale_rows (mat A') (rws A)
                  (forward_rows (mat A') (snd (factor_of (rws A) (cls A) (mat A))) (rws A)
                     (mat R)))"
proof -
  from ldlt_factor_ok[OF A c, of gl gr] obtain s where
    s: "ldlt_factor (ldlt_scratch gl gr A) = Inr s"
      "factors s = factor_of (rws A) (cls A) (mat A)" "frame_ok (rws A) (cls A) s"
    by blast
  note d = frame_okD[OF s(3)]
  from forward_Matrix_ok[OF s(3) R rr] obtain R1 where
    r1: "forward_Matrix s R = Inr R1"
      "mat R1 = forward_rows (mat (self s)) (lwbIdx s) (rws A) (mat R)"
      "mat_wf R1" "rws R1 = rws A" "cls R1 = cls R" by blast
  from scale_Matrix_ok[OF s(3) c(1) r1(3,4)] obtain R2 where
    r2: "scale_Matrix s R1 = Inr R2"
      "mat R2 = scale_rows (mat (self s)) (rws A) (mat R1)"
      "mat_wf R2" "rws R2 = rws A" "cls R2 = cls R1" by blast
  from back_Matrix_ok[OF s(3) r2(3,4)] obtain R3 where
    r3: "back_Matrix s R2 = Inr R3"
      "mat R3 = back_rows (mat (self s)) (rws A) (cls A) (mat R2)"
      "mat_wf R3" "rws R3 = rws A" "cls R3 = cls R2" by blast
  have pre: "(rws A < cls A) = False" "(rws R \<noteq> rws A) = False" using c rr by simp_all
  have res: "solveLDLT_Matrix gl gr A R = Inr (self s, R3)"
    unfolding solveLDLT_Matrix_def pre by (simp add: s(1) r1(1) r2(1) r3(1))
  have f: "mat (self s) = fst (factor_of (rws A) (cls A) (mat A))"
    "lwbIdx s = snd (factor_of (rws A) (cls A) (mat A))"
    using s(2) by (simp_all add: factors_def prod_eq_iff)
  show ?thesis
    using res d(1,2,3) f r3(2,3,4,5) r2(2,5) r1(2,5)
    by (intro exI[of _ "self s"] exI[of _ R3]) simp
qed

subsection \<open>The two overloads\<close>

lemma column_relI:
  assumes "rows \<le> int (length x)" "int (length X) = rows"
    "\<And>row. row \<in> set X \<Longrightarrow> int (length row) = rc" "0 \<le> c" "c < rc"
    "\<And>i. 0 \<le> i \<Longrightarrow> i < rows \<Longrightarrow> x ! nat i = X ! nat i ! nat c"
  shows "column_rel rows rc c x X"
  unfolding column_rel_def using assms by blast

lemma column_relD:
  assumes "column_rel rows rc c x X"
  shows "rows \<le> int (length x)" "int (length X) = rows" "0 \<le> c" "c < rc"
    "\<And>row. row \<in> set X \<Longrightarrow> int (length row) = rc"
    "\<And>i. 0 \<le> i \<Longrightarrow> i < rows \<Longrightarrow> x ! nat i = X ! nat i ! nat c"
  using assms unfolding column_rel_def by blast+

lemma column_rel_row:
  assumes "column_rel rows rc c x X" "0 \<le> i" "i < rows"
  shows "nat i < length X" "length (X ! nat i) = nat rc" "nat i < length x"
proof -
  note d = column_relD[OF assms(1)]
  show n: "nat i < length X" using d(2) assms(2,3) by arith
  have "int (length (X ! nat i)) = rc" by (rule d(5)) (use n in simp)
  then show "length (X ! nat i) = nat rc" by simp
  show "nat i < length x" using d(1) assms(2,3) by arith
qed

lemma set_update_cases:
  assumes "y \<in> set (xs[k := z])"
  shows "y = z \<or> y \<in> set xs"
proof -
  have "y \<in> insert z (set xs)"
    using assms set_update_subset_insert[of xs k z] by (rule rev_subsetD)
  then show ?thesis by blast
qed

lemma column_rel_sub:
  fixes x :: "'a::{minus,times} list"
  assumes rel: "column_rel rows rc c x X" and i: "0 \<le> i" "i < rows" and j: "0 \<le> j" "j < rows"
  shows "column_rel rows rc c (sub_at m i j x) (row_sub_at m i j X)"
proof (rule column_relI)
  note d = column_relD[OF rel]
  note ri = column_rel_row[OF rel i] and rj = column_rel_row[OF rel j]
  let ?row = "map2 (\<lambda>xi xj. xi - m * xj) (X ! nat i) (X ! nat j)"
  have lrow: "length ?row = nat rc" using ri(2) rj(2) by simp
  have cn: "nat c < nat rc" using d(3,4) by simp
  show "rows \<le> int (length (sub_at m i j x))" using d(1) by (simp add: sub_at_def)
  show "int (length (row_sub_at m i j X)) = rows" using d(2) by (simp add: row_sub_at_def)
  show "0 \<le> c" "c < rc" using d(3,4) .
  show "\<And>row. row \<in> set (row_sub_at m i j X) \<Longrightarrow> int (length row) = rc"
  proof -
    fix row assume "row \<in> set (row_sub_at m i j X)"
    then have "row = ?row \<or> row \<in> set X"
      unfolding row_sub_at_def by (rule set_update_cases)
    then show "int (length row) = rc" using lrow d(4) d(5) d(3) by auto
  qed
  show "\<And>k. 0 \<le> k \<Longrightarrow> k < rows \<Longrightarrow>
          sub_at m i j x ! nat k = row_sub_at m i j X ! nat k ! nat c"
  proof -
    fix k assume k: "0 \<le> k" "k < rows"
    show "sub_at m i j x ! nat k = row_sub_at m i j X ! nat k ! nat c"
    proof (cases "k = i")
      case True
      have "row_sub_at m i j X ! nat i = ?row" unfolding row_sub_at_def using ri(1) by simp
      then have "row_sub_at m i j X ! nat i ! nat c = X ! nat i ! nat c - m * X ! nat j ! nat c"
        using cn ri(2) rj(2) by simp
      moreover have "sub_at m i j x ! nat i = x ! nat i - m * x ! nat j"
        unfolding sub_at_def using ri(3) by simp
      ultimately show ?thesis unfolding True using d(6)[OF i] d(6)[OF j] by simp
    next
      case False
      then have ne: "nat i \<noteq> nat k" using k i by arith
      have "row_sub_at m i j X ! nat k = X ! nat k" unfolding row_sub_at_def using ne by simp
      moreover have "sub_at m i j x ! nat k = x ! nat k" unfolding sub_at_def using ne by simp
      ultimately show ?thesis using d(6)[OF k] by simp
    qed
  qed
qed

lemma column_rel_div:
  fixes x :: "'a::inverse list"
  assumes rel: "column_rel rows rc c x X" and i: "0 \<le> i" "i < rows"
  shows "column_rel rows rc c (div_at dv i x) (row_div_at dv i X)"
proof (rule column_relI)
  note d = column_relD[OF rel]
  note ri = column_rel_row[OF rel i]
  let ?row = "map (\<lambda>xi. xi / dv) (X ! nat i)"
  have lrow: "length ?row = nat rc" using ri(2) by simp
  have cn: "nat c < nat rc" using d(3,4) by simp
  show "rows \<le> int (length (div_at dv i x))" using d(1) by (simp add: div_at_def)
  show "int (length (row_div_at dv i X)) = rows" using d(2) by (simp add: row_div_at_def)
  show "0 \<le> c" "c < rc" using d(3,4) .
  show "\<And>row. row \<in> set (row_div_at dv i X) \<Longrightarrow> int (length row) = rc"
  proof -
    fix row assume "row \<in> set (row_div_at dv i X)"
    then have "row = ?row \<or> row \<in> set X"
      unfolding row_div_at_def by (rule set_update_cases)
    then show "int (length row) = rc" using lrow d(4) d(5) d(3) by auto
  qed
  show "\<And>k. 0 \<le> k \<Longrightarrow> k < rows \<Longrightarrow>
          div_at dv i x ! nat k = row_div_at dv i X ! nat k ! nat c"
  proof -
    fix k assume k: "0 \<le> k" "k < rows"
    show "div_at dv i x ! nat k = row_div_at dv i X ! nat k ! nat c"
    proof (cases "k = i")
      case True
      have "row_div_at dv i X ! nat i = ?row" unfolding row_div_at_def using ri(1) by simp
      then have "row_div_at dv i X ! nat i ! nat c = X ! nat i ! nat c / dv"
        using cn ri(2) by simp
      moreover have "div_at dv i x ! nat i = x ! nat i / dv"
        unfolding div_at_def using ri(3) by simp
      ultimately show ?thesis unfolding True using d(6)[OF i] by simp
    next
      case False
      then have ne: "nat i \<noteq> nat k" using k i by arith
      have "row_div_at dv i X ! nat k = X ! nat k" unfolding row_div_at_def using ne by simp
      moreover have "div_at dv i x ! nat k = x ! nat k" unfolding div_at_def using ne by simp
      ultimately show ?thesis using d(6)[OF k] by simp
    qed
  qed
qed

lemma fold_rel:
  assumes "\<And>k a b. k \<in> set ks \<Longrightarrow> Rel a b \<Longrightarrow> Rel (f k a) (g k b)" "Rel a b"
  shows "Rel (fold f ks a) (fold g ks b)"
  using assms by (induction ks arbitrary: a b) simp_all

lemma column_rel_forward:
  fixes x :: "'a::{minus,times} list"
  assumes rel: "column_rel rows rc c x X"
    and lwb: "\<And>i. 0 \<le> i \<Longrightarrow> i < rows \<Longrightarrow> 0 \<le> lwb ! nat i"
  shows "column_rel rows rc c (forward_cells L lwb rows x) (forward_rows L lwb rows X)"
  unfolding forward_cells_def forward_rows_def
proof (rule fold_rel[where Rel = "column_rel rows rc c", OF _ rel])
  fix i and a :: "'a list" and b :: "'a list list" assume i: "i \<in> set [0..rows - 1]" and ab: "column_rel rows rc c a b"
  then have i0: "0 \<le> i" "i < rows" by simp_all
  show "column_rel rows rc c
          (fold (\<lambda>j. sub_at (ent L j (i - j)) i j) [lwb ! nat i..i - 1] a)
          (fold (\<lambda>j. row_sub_at (ent L j (i - j)) i j) [lwb ! nat i..i - 1] b)"
  proof (rule fold_rel[where Rel = "column_rel rows rc c", OF _ ab])
    fix j and a' :: "'a list" and b' :: "'a list list" assume j: "j \<in> set [lwb ! nat i..i - 1]" and ab': "column_rel rows rc c a' b'"
    have j0: "0 \<le> j" "j < rows" using j lwb[OF i0] i0 by simp_all
    show "column_rel rows rc c (sub_at (ent L j (i - j)) i j a')
            (row_sub_at (ent L j (i - j)) i j b')"
      by (rule column_rel_sub[OF ab' i0 j0])
  qed
qed

lemma column_rel_scale:
  fixes x :: "'a::inverse list"
  assumes rel: "column_rel rows rc c x X"
  shows "column_rel rows rc c (scale_cells L rows x) (scale_rows L rows X)"
  unfolding scale_cells_def scale_rows_def
proof (rule fold_rel[where Rel = "column_rel rows rc c", OF _ rel])
  fix i and a :: "'a list" and b :: "'a list list" assume i: "i \<in> set [0..rows - 1]" and ab: "column_rel rows rc c a b"
  then have i0: "0 \<le> i" "i < rows" by simp_all
  show "column_rel rows rc c (div_at (ent L i 0) i a) (row_div_at (ent L i 0) i b)"
    by (rule column_rel_div[OF ab i0])
qed

lemma column_rel_back:
  fixes x :: "'a::{minus,times} list"
  assumes rel: "column_rel rows rc c x X"
  shows "column_rel rows rc c (back_cells L rows cols x) (back_rows L rows cols X)"
  unfolding back_cells_def back_rows_def
proof (rule fold_rel[where Rel = "column_rel rows rc c", OF _ rel])
  fix i and a :: "'a list" and b :: "'a list list" assume i: "i \<in> set (rev [0..rows - 1])" and ab: "column_rel rows rc c a b"
  then have i0: "0 \<le> i" "i < rows" by simp_all
  show "column_rel rows rc c
          (fold (\<lambda>j. sub_at (ent L i (j - i)) i j) [i + 1..min (i + cols) rows - 1] a)
          (fold (\<lambda>j. row_sub_at (ent L i (j - i)) i j) [i + 1..min (i + cols) rows - 1] b)"
  proof (rule fold_rel[where Rel = "column_rel rows rc c", OF _ ab])
    fix j and a' :: "'a list" and b' :: "'a list list" assume j: "j \<in> set [i + 1..min (i + cols) rows - 1]"
      and ab': "column_rel rows rc c a' b'"
    have j0: "0 \<le> j" "j < rows" using j i0 by simp_all
    show "column_rel rows rc c (sub_at (ent L i (j - i)) i j a')
            (row_sub_at (ent L i (j - i)) i j b')"
      by (rule column_rel_sub[OF ab' i0 j0])
  qed
qed

lemma holds_column_rel:
  assumes v: "vec_wf v" and R: "mat_wf R" and c: "0 \<le> c" "c < cls R" and sz: "sz v = rws R"
  shows "holds_column v R c \<longleftrightarrow> column_rel (rws R) (cls R) c (mem (va v)) (mat R)"
proof -
  have get: "\<And>i. 0 \<le> i \<Longrightarrow> i < rws R \<Longrightarrow> vector_get v i = Inr (mem (va v) ! nat i)"
    using vector_get_ok[OF v] sz by simp
  have rd: "\<And>i. 0 \<le> i \<Longrightarrow> i < rws R \<Longrightarrow> rd2 (mat R) i c = Some (mat R ! nat i ! nat c)"
    using rd2_wf[OF R _ _ c] by (simp add: ent_def)
  have shape: "rws R \<le> int (length (mem (va v)))" "int (length (mat R)) = rws R"
    "\<And>row. row \<in> set (mat R) \<Longrightarrow> int (length row) = cls R"
    using vec_wfD[OF v] sz mat_wf_dims[OF R] R unfolding mat_wf_def by auto
  show ?thesis
  proof
    assume h: "holds_column v R c"
    show "column_rel (rws R) (cls R) c (mem (va v)) (mat R)"
    proof (rule column_relI[OF shape c])
      fix i assume i: "0 \<le> i" "i < rws R"
      then have "i \<in> {0..<rws R}" by simp
      then have "case rd2 (mat R) i c of None \<Rightarrow> False | Some x \<Rightarrow> vector_get v i = Inr x"
        using h unfolding holds_column_def by blast
      then show "mem (va v) ! nat i = mat R ! nat i ! nat c"
        using get[OF i] rd[OF i] by simp
    qed
  next
    assume h: "column_rel (rws R) (cls R) c (mem (va v)) (mat R)"
    have "\<forall>i \<in> {0..<rws R}.
            case rd2 (mat R) i c of None \<Rightarrow> False | Some x \<Rightarrow> vector_get v i = Inr x"
    proof
      fix i assume "i \<in> {0..<rws R}"
      then have i: "0 \<le> i" "i < rws R" by simp_all
      show "case rd2 (mat R) i c of None \<Rightarrow> False | Some x \<Rightarrow> vector_get v i = Inr x"
        using get[OF i] rd[OF i] column_relD(6)[OF h i] by simp
    qed
    then show "holds_column v R c" unfolding holds_column_def using sz by blast
  qed
qed

lemma factor_of_lwb_nonneg:
  fixes A :: "'a::{minus,times,inverse,abs,ord,numeral} matrix"
  assumes A: "mat_wf A" and c: "1 \<le> cls A" "cls A \<le> rws A" and i: "0 \<le> i" "i < rws A"
  shows "0 \<le> snd (factor_of (rws A) (cls A) (mat A)) ! nat i"
proof -
  from ldlt_factor_ok[OF A c, of "\<lambda>_. 0" "\<lambda>_. 1"] obtain s where
    s: "factors s = factor_of (rws A) (cls A) (mat A)" "frame_ok (rws A) (cls A) s" by blast
  have "lwbIdx s = snd (factor_of (rws A) (cls A) (mat A))"
    using s(1) by (simp add: factors_def prod_eq_iff)
  then show ?thesis using frame_ok_lwb(1)[OF s(2) i] by simp
qed

text \<open>Claim C3. For a banded matrix \<open>A\<close> with \<open>1 \<le> cls \<le> rws\<close> and a right-hand side
  matrix \<open>R\<close> with the rows of \<open>A\<close>, \<open>solveLDLT(R)\<close> returns, and for every column \<open>c\<close> of
  \<open>R\<close> and every vector that holds that column, the vector overload applied to the same
  \<open>A\<close> returns a vector that holds column \<open>c\<close> of the result, and leaves the same factors
  in the coefficient matrix. The scratch arrays of the two calls may start with different
  contents.\<close>

theorem solveLDLT_Matrix_columns:
  fixes A :: "'a::{minus,times,inverse,abs,ord,numeral} matrix"
  assumes A: "mat_wf A" and c: "1 \<le> cls A" "cls A \<le> rws A"
    and R: "mat_wf R" and rr: "rws R = rws A"
  shows "\<exists>A' R'. solveLDLT_Matrix gl gr A R = Inr (A', R') \<and>
           mat_wf R' \<and> rws R' = rws R \<and> cls R' = cls R \<and>
           (\<forall>c v gl' gr'. 0 \<le> c \<and> c < cls R \<and> vec_wf v \<and> holds_column v R c \<longrightarrow>
              (\<exists>v'. solveLDLT_Vector gl' gr' A v = Inr (A', v') \<and> holds_column v' R' c))"
proof -
  let ?F = "factor_of (rws A) (cls A) (mat A)"
  from solveLDLT_Matrix_ok[OF A c R rr, of gl gr] obtain A' R' where
    m: "solveLDLT_Matrix gl gr A R = Inr (A', R')" "rws A' = rws A" "cls A' = cls A"
      "mat A' = fst ?F" "mat_wf R'" "rws R' = rws A" "cls R' = cls R"
      "mat R' = back_rows (mat A') (rws A) (cls A)
               (scale_rows (mat A') (rws A) (forward_rows (mat A') (snd ?F) (rws A) (mat R)))"
    by blast
  have "\<forall>c v gl' gr'. 0 \<le> c \<and> c < cls R \<and> vec_wf v \<and> holds_column v R c \<longrightarrow>
              (\<exists>v'. solveLDLT_Vector gl' gr' A v = Inr (A', v') \<and> holds_column v' R' c)"
  proof (intro allI impI)
    fix c0 :: int and v :: "'a vector" and gl' :: "nat \<Rightarrow> int" and gr' :: "nat \<Rightarrow> 'a"
    assume h: "0 \<le> c0 \<and> c0 < cls R \<and> vec_wf v \<and> holds_column v R c0"
    then have c0: "0 \<le> c0" "c0 < cls R" and v: "vec_wf v" and hc: "holds_column v R c0"
      by simp_all
    have sz: "sz v = rws A" using hc rr by (simp add: holds_column_def)
    from solveLDLT_Vector_ok[OF A c v sz, of gl' gr'] obtain A'' v' where
      w: "solveLDLT_Vector gl' gr' A v = Inr (A'', v')" "rws A'' = rws A" "cls A'' = cls A"
        "mat A'' = fst ?F" "vec_wf v'" "sz v' = rws A"
        "mem (va v') = back_cells (mat A'') (rws A) (cls A)
               (scale_cells (mat A'') (rws A)
                  (forward_cells (mat A'') (snd ?F) (rws A) (mem (va v))))"
      by blast
    have same: "A'' = A'" using w(2,3,4) m(2,3,4) by simp
    have r0: "column_rel (rws A) (cls R) c0 (mem (va v)) (mat R)"
      using holds_column_rel[OF v R c0] sz rr hc by simp
    have r1: "column_rel (rws A) (cls R) c0
               (forward_cells (mat A') (snd ?F) (rws A) (mem (va v)))
               (forward_rows (mat A') (snd ?F) (rws A) (mat R))"
      by (rule column_rel_forward[OF r0]) (rule factor_of_lwb_nonneg[OF A c])
    have r3: "column_rel (rws A) (cls R) c0 (mem (va v')) (mat R')"
      unfolding w(7) m(8) same
      by (intro column_rel_back column_rel_scale r1)
    have c0': "0 \<le> c0" "c0 < cls R'" using c0 m(7) by simp_all
    have "holds_column v' R' c0"
      using holds_column_rel[OF w(5) m(5) c0'] w(6) m(6,7) r3 by simp
    then show "\<exists>v'. solveLDLT_Vector gl' gr' A v = Inr (A', v') \<and> holds_column v' R' c0"
      using w(1) same by blast
  qed
  then show ?thesis using m(1,5,6,7) rr by (intro exI[of _ A'] exI[of _ R']) simp
qed

theorem solveLDLT_Matrix_columns_witness:
  "mat_wf \<lparr>mat = [[4, 1], [4, 1], [4, 0 :: real]], rws = 3, cls = 2\<rparr> \<and>
   mat_wf \<lparr>mat = [[1, 4], [2, 5], [3, 6 :: real]], rws = 3, cls = 2\<rparr> \<and>
   vec_wf \<lparr>va = Some \<lparr>addr = 1, cells = [4, 5, 6 :: real]\<rparr>, sz = 3, cap = 3\<rparr> \<and>
   holds_column \<lparr>va = Some \<lparr>addr = 1, cells = [4, 5, 6 :: real]\<rparr>, sz = 3, cap = 3\<rparr>
     \<lparr>mat = [[1, 4], [2, 5], [3, 6]], rws = 3, cls = 2\<rparr> 1 \<and>
   (\<exists>A' R' v'.
      solveLDLT_Matrix int real \<lparr>mat = [[4, 1], [4, 1], [4, 0]], rws = 3, cls = 2\<rparr>
        \<lparr>mat = [[1, 4], [2, 5], [3, 6]], rws = 3, cls = 2\<rparr> = Inr (A', R') \<and>
      solveLDLT_Vector int real \<lparr>mat = [[4, 1], [4, 1], [4, 0]], rws = 3, cls = 2\<rparr>
        \<lparr>va = Some \<lparr>addr = 1, cells = [4, 5, 6]\<rparr>, sz = 3, cap = 3\<rparr> = Inr (A', v') \<and>
      holds_column v' R' 1)"
proof -
  let ?A = "\<lparr>mat = [[4, 1], [4, 1], [4, 0 :: real]], rws = 3, cls = 2\<rparr>"
  let ?R = "\<lparr>mat = [[1, 4], [2, 5], [3, 6 :: real]], rws = 3, cls = 2\<rparr>"
  let ?v = "\<lparr>va = Some \<lparr>addr = 1, cells = [4, 5, 6 :: real]\<rparr>, sz = 3, cap = 3\<rparr>"
  have a: "mat_wf ?A" by (rule mat_wfI) auto
  have r: "mat_wf ?R" by (rule mat_wfI) auto
  have v: "vec_wf ?v" by (simp add: vec_wf_def vec_inv_def mem_def)
  have c: "1 \<le> cls ?A" "cls ?A \<le> rws ?A" "rws ?R = rws ?A" by simp_all
  have "{0..<3::int} = {0, 1, 2}" by auto
  then have h: "holds_column ?v ?R 1"
    by (simp add: holds_column_def rd2_def rd_def vector_get_def mem_def)
  from solveLDLT_Matrix_columns[OF a c(1,2) r c(3), of int real] obtain A' R' where
    m: "solveLDLT_Matrix int real ?A ?R = Inr (A', R')"
    and cols: "\<And>c v gl' gr'. 0 \<le> c \<Longrightarrow> c < cls ?R \<Longrightarrow> vec_wf v \<Longrightarrow> holds_column v ?R c \<Longrightarrow>
              \<exists>v'. solveLDLT_Vector gl' gr' ?A v = Inr (A', v') \<and> holds_column v' R' c"
    by blast
  from cols[of 1 ?v int real] v h obtain v' where
    "solveLDLT_Vector int real ?A ?v = Inr (A', v')" "holds_column v' R' 1" by auto
  then show ?thesis using a r v h m by blast
qed

subsection \<open>No access outside the band\<close>

lemma frame_ok_lwb_inv:
  assumes "frame_ok rows cols s"
  shows "lwb_inv s"
  unfolding lwb_inv_def
proof
  note d = frame_okD[OF assms]
  fix j assume "j \<in> {0..<rws (self s)}"
  then have j: "0 \<le> j" "j < rows" using d(2) by simp_all
  have "rd (lwbIdx s) j = Some (lwbIdx s ! nat j)" using j d(4) by (simp add: rd_nth)
  then show "case rd (lwbIdx s) j of None \<Rightarrow> False
             | Some l \<Rightarrow> max 0 (j - cls (self s) + 1) \<le> l \<and> l \<le> j"
    using frame_ok_lwb[OF assms j] d(3) by simp
qed

text \<open>Claim C10. For a matrix with \<open>1 \<le> cls \<le> rws\<close>, the initialization of
  \<open>lwbIdx\<close> returns, and from there on \<open>max 0 (j - cls + 1) \<le> lwbIdx[j] \<le> j\<close> holds for
  every row \<open>j\<close> after any number of rows of the factorization pass, after the diagonal
  step of any row, and after any number of steps of the loop over its band. No access of
  the pass or of the substitution loops leaves the arrays: on a right-hand side of \<open>rws\<close>
  entries or rows both overloads return, where an access outside the table of rows, outside a
  row of \<open>cls\<close> cells or outside a scratch array would be a \<open>MemoryFault\<close>.\<close>

theorem solveLDLT_in_band:
  fixes A :: "'a::{minus,times,inverse,abs,ord,numeral} matrix"
  assumes A: "mat_wf A" and c: "1 \<le> cls A" "cls A \<le> rws A"
  shows "\<exists>s0. ldlt_init (ldlt_scratch gl gr A) = Inr s0 \<and>
           (\<forall>n. n \<le> rws A \<longrightarrow> (\<exists>s. for_loop 0 n ldlt_row s0 = Inr s \<and> lwb_inv s)) \<and>
           (\<forall>i u. 0 \<le> i \<and> i < rws A \<and> u \<le> min (i + cls A) (rws A) \<longrightarrow>
              (\<exists>s dd s2 s3. for_loop 0 i ldlt_row s0 = Inr s \<and>
                 ldlt_diag i s = Inr (dd, s2) \<and> lwb_inv s2 \<and>
                 for_loop (i + 1) u (offdiag_body i dd) s2 = Inr s3 \<and> lwb_inv s3)) \<and>
           (\<forall>rhs. vec_wf rhs \<and> sz rhs = rws A \<longrightarrow>
              (\<exists>A' rhs'. solveLDLT_Vector gl gr A rhs = Inr (A', rhs'))) \<and>
           (\<forall>R. mat_wf R \<and> rws R = rws A \<longrightarrow>
              (\<exists>A' R'. solveLDLT_Matrix gl gr A R = Inr (A', R')))"
proof -
  let ?s0 = "(ldlt_scratch gl gr A)\<lparr>lwbIdx := lwb_init (rws A) (cls A)\<rparr>"
  have c0: "0 \<le> cls A" using c by simp
  have init: "ldlt_init (ldlt_scratch gl gr A) = Inr ?s0"
    by (rule ldlt_init_ok[OF A c0 c(2)])
  have rows: "\<forall>n. n \<le> rws A \<longrightarrow> (\<exists>s. for_loop 0 n ldlt_row ?s0 = Inr s \<and> lwb_inv s)"
  proof (intro allI impI)
    fix n assume n: "n \<le> rws A"
    from ldlt_rows_upto[OF A c n, of gl gr] obtain s where
      "for_loop 0 n ldlt_row ?s0 = Inr s" "frame_ok (rws A) (cls A) s" by blast
    then show "\<exists>s. for_loop 0 n ldlt_row ?s0 = Inr s \<and> lwb_inv s"
      using frame_ok_lwb_inv by blast
  qed
  have band: "\<forall>i u. 0 \<le> i \<and> i < rws A \<and> u \<le> min (i + cls A) (rws A) \<longrightarrow>
              (\<exists>s dd s2 s3. for_loop 0 i ldlt_row ?s0 = Inr s \<and>
                 ldlt_diag i s = Inr (dd, s2) \<and> lwb_inv s2 \<and>
                 for_loop (i + 1) u (offdiag_body i dd) s2 = Inr s3 \<and> lwb_inv s3)"
  proof (intro allI impI)
    fix i u assume h: "0 \<le> i \<and> i < rws A \<and> u \<le> min (i + cls A) (rws A)"
    then have i: "0 \<le> i" "i < rws A" and u: "u \<le> min (i + cls A) (rws A)" by simp_all
    have "i \<le> rws A" using i by simp
    from ldlt_rows_upto[OF A c this, of gl gr] obtain s where
      s: "for_loop 0 i ldlt_row ?s0 = Inr s" "frame_ok (rws A) (cls A) s" by blast
    from ldlt_diag_step[OF s(2) c(1) i] obtain s2 where
      s2: "ldlt_diag i s = Inr (pivot_of (mat (self s)) (lwbIdx s) i, s2)"
        "frame_ok (rws A) (cls A) s2"
      and cache: "\<forall>k. lwbIdx s2 ! nat i \<le> k \<and> k < i \<longrightarrow>
                  r s2 ! nat k = ent (mat (self s2)) k 0 * ent (mat (self s2)) k (i - k)"
      by blast
    from offdiag_loop[OF s2(2) i(1) u cache, of "pivot_of (mat (self s)) (lwbIdx s) i"]
    obtain s3 where
      s3: "for_loop (i + 1) u (offdiag_body i (pivot_of (mat (self s)) (lwbIdx s) i)) s2 = Inr s3"
        "frame_ok (rws A) (cls A) s3" by blast
    show "\<exists>s dd s2 s3. for_loop 0 i ldlt_row ?s0 = Inr s \<and>
                 ldlt_diag i s = Inr (dd, s2) \<and> lwb_inv s2 \<and>
                 for_loop (i + 1) u (offdiag_body i dd) s2 = Inr s3 \<and> lwb_inv s3"
      using s(1) s2(1) s3(1) frame_ok_lwb_inv[OF s2(2)] frame_ok_lwb_inv[OF s3(2)] by blast
  qed
  have vec: "\<forall>rhs. vec_wf rhs \<and> sz rhs = rws A \<longrightarrow>
              (\<exists>A' rhs'. solveLDLT_Vector gl gr A rhs = Inr (A', rhs'))"
  proof (intro allI impI)
    fix rhs :: "'a vector" assume h: "vec_wf rhs \<and> sz rhs = rws A"
    then have "vec_wf rhs" "sz rhs = rws A" by simp_all
    from solveLDLT_Vector_ok[OF A c this, of gl gr]
    show "\<exists>A' rhs'. solveLDLT_Vector gl gr A rhs = Inr (A', rhs')" by blast
  qed
  have mtx: "\<forall>R. mat_wf R \<and> rws R = rws A \<longrightarrow>
              (\<exists>A' R'. solveLDLT_Matrix gl gr A R = Inr (A', R'))"
  proof (intro allI impI)
    fix R :: "'a matrix" assume h: "mat_wf R \<and> rws R = rws A"
    then have "mat_wf R" "rws R = rws A" by simp_all
    from solveLDLT_Matrix_ok[OF A c this, of gl gr]
    show "\<exists>A' R'. solveLDLT_Matrix gl gr A R = Inr (A', R')" by blast
  qed
  show ?thesis using init rows band vec mtx by (intro exI[of _ ?s0] conjI)
qed

theorem solveLDLT_in_band_witness:
  "mat_wf \<lparr>mat = [[4, 1], [4, 1], [4, 0 :: real]], rws = 3, cls = 2\<rparr> \<and>
   vec_wf \<lparr>va = Some \<lparr>addr = 1, cells = [1, 2, 3 :: real]\<rparr>, sz = 3, cap = 3\<rparr> \<and>
   (\<exists>s0 s A' rhs'.
      ldlt_init (ldlt_scratch int real \<lparr>mat = [[4, 1], [4, 1], [4, 0]], rws = 3, cls = 2\<rparr>) = Inr s0 \<and>
      for_loop 0 2 ldlt_row s0 = Inr s \<and> lwb_inv s \<and>
      solveLDLT_Vector int real \<lparr>mat = [[4, 1], [4, 1], [4, 0]], rws = 3, cls = 2\<rparr>
        \<lparr>va = Some \<lparr>addr = 1, cells = [1, 2, 3]\<rparr>, sz = 3, cap = 3\<rparr> = Inr (A', rhs'))"
proof -
  let ?A = "\<lparr>mat = [[4, 1], [4, 1], [4, 0 :: real]], rws = 3, cls = 2\<rparr>"
  let ?v = "\<lparr>va = Some \<lparr>addr = 1, cells = [1, 2, 3 :: real]\<rparr>, sz = 3, cap = 3\<rparr>"
  have a: "mat_wf ?A" by (rule mat_wfI) auto
  have v: "vec_wf ?v" by (simp add: vec_wf_def vec_inv_def mem_def)
  have c: "1 \<le> cls ?A" "cls ?A \<le> rws ?A" by simp_all
  from solveLDLT_in_band[OF a c, of int real] obtain s0 where
    i: "ldlt_init (ldlt_scratch int real ?A) = Inr s0"
    and n: "\<And>n. n \<le> rws ?A \<Longrightarrow> \<exists>s. for_loop 0 n ldlt_row s0 = Inr s \<and> lwb_inv s"
    and w: "\<And>rhs. vec_wf rhs \<Longrightarrow> sz rhs = rws ?A \<Longrightarrow>
              \<exists>A' rhs'. solveLDLT_Vector int real ?A rhs = Inr (A', rhs')"
    by blast
  from n[of 2] obtain s where s: "for_loop 0 2 ldlt_row s0 = Inr s" "lwb_inv s" by auto
  from w[OF v] obtain A' rhs' where "solveLDLT_Vector int real ?A ?v = Inr (A', rhs')" by auto
  then show ?thesis using a v i s by blast
qed

subsection \<open>The factorization pass computes what the specification says\<close>

lemma fold_minus_sum: "fold (\<lambda>j dd. dd - f j) xs a = minus_sum a (map f xs)"
  by (induction xs arbitrary: a) (simp_all add: minus_sum_def)

text \<open>In a group \<open>minus_sum\<close> is the difference with the sum.\<close>

lemma minus_sum_group:
  fixes a :: "'a::ab_group_add"
  shows "minus_sum a ts = a - sum_list ts"
  by (induction ts arbitrary: a) (simp_all add: minus_sum_def algebra_simps)

lemma fold_upto_cong:
  assumes "P lo s"
    and "\<And>i s. lo \<le> i \<Longrightarrow> i \<le> hi \<Longrightarrow> P i s \<Longrightarrow> f i s = g i s \<and> P (i + 1) (f i s)"
  shows "fold f [lo..hi] s = fold g [lo..hi] s \<and> P (max lo (hi + 1)) (fold f [lo..hi] s)"
  using assms
proof (induction lo hi arbitrary: s rule: upto.induct)
  case (1 i j)
  show ?case
  proof (cases "i \<le> j")
    case False
    then have "max i (j + 1) = i" by simp
    then show ?thesis using False "1.prems"(1) by simp
  next
    case True
    have st: "f i s = g i s" "P (i + 1) (f i s)" using "1.prems"(2)[OF _ True "1.prems"(1)] by blast+
    have step: "\<And>k t. i + 1 \<le> k \<Longrightarrow> k \<le> j \<Longrightarrow> P k t \<Longrightarrow> f k t = g k t \<and> P (k + 1) (f k t)"
    proof -
      fix k t assume a: "i + 1 \<le> k" "k \<le> j" "P k t"
      then have "i \<le> k" by simp
      from "1.prems"(2)[OF this a(2,3)] show "f k t = g k t \<and> P (k + 1) (f k t)" .
    qed
    have "fold f [i + 1..j] (f i s) = fold g [i + 1..j] (f i s) \<and>
          P (max (i + 1) (j + 1)) (fold f [i + 1..j] (f i s))"
      by (rule "1.IH"[OF True st(2) step])
    then have eq: "fold f [i + 1..j] (f i s) = fold g [i + 1..j] (f i s)"
      and p: "P (max (i + 1) (j + 1)) (fold f [i + 1..j] (f i s))" by blast+
    have l: "[i..j] = i # [i + 1..j]" using True by (simp add: upto_rec1)
    have ff: "fold f [i..j] s = fold f [i + 1..j] (f i s)" unfolding l by simp
    have gg: "fold g [i..j] s = fold g [i + 1..j] (g i s)" unfolding l by simp
    have "fold f [i..j] s = fold g [i + 1..j] (f i s)" unfolding ff eq ..
    also have "\<dots> = fold g [i..j] s" unfolding gg st(1) ..
    finally have "fold f [i..j] s = fold g [i..j] s" .
    moreover have "max (i + 1) (j + 1) = max i (j + 1)" using True by simp
    then have "P (max i (j + 1)) (fold f [i..j] s)" unfolding ff using p by simp
    ultimately show ?thesis by blast
  qed
qed

lemma lwb_init_spec: "lwb_init rows cols = map (spec_lwb cols) [0..rows - 1]"
  by (simp add: lwb_init_def spec_lwb_def)

lemma pivot_of_spec:
  fixes L :: "'a::{minus,times} list list"
  assumes comm: "\<And>x y :: 'a. x * y = y * x" and e: "ent L i 0 = ent A i 0"
  shows "pivot_of L lwb i = spec_diag A L lwb i"
proof -
  have "\<And>j. (ent L j 0 * ent L j (i - j)) * ent L j (i - j) = ent L j (i - j) * spec_r L i j"
  proof -
    fix j
    have "ent L j 0 * ent L j (i - j) = spec_r L i j" unfolding spec_r_def by (rule comm)
    then have "(ent L j 0 * ent L j (i - j)) * ent L j (i - j) = spec_r L i j * ent L j (i - j)"
      by simp
    also have "\<dots> = ent L j (i - j) * spec_r L i j" by (rule comm)
    finally show "(ent L j 0 * ent L j (i - j)) * ent L j (i - j) = ent L j (i - j) * spec_r L i j" .
  qed
  then have "(\<lambda>j dd. dd - (ent L j 0 * ent L j (i - j)) * ent L j (i - j)) =
        (\<lambda>j dd. dd - ent L j (i - j) * spec_r L i j)"
    by simp
  then show ?thesis
    unfolding pivot_of_def spec_diag_def by (simp add: fold_minus_sum e)
qed

lemma multiplier_of_spec:
  fixes L :: "'a::{minus,times,inverse} list list"
  assumes comm: "\<And>x y :: 'a. x * y = y * x" and e: "ent L i (j - i) = ent A i (j - i)"
  shows "multiplier_of L lwb i j d = spec_multiplier A L lwb i j d"
proof -
  have "\<And>k. ent L k 0 * ent L k (i - k) = spec_r L i k"
    unfolding spec_r_def by (rule comm)
  then have "(\<lambda>k m. m - ent L k (j - k) * (ent L k 0 * ent L k (i - k))) =
        (\<lambda>k m. m - ent L k (j - k) * spec_r L i k)"
    by simp
  then show ?thesis
    unfolding multiplier_of_def spec_multiplier_def by (simp add: fold_minus_sum e)
qed

lemma offdiag_step_spec:
  fixes L :: "'a::{minus,times,inverse,abs,ord,numeral} list list"
  assumes comm: "\<And>x y :: 'a. x * y = y * x" and e: "ent L i (j - i) = ent A i (j - i)"
  shows "offdiag_step i d j (L, lwb) = spec_band_step A i d j (L, lwb)"
proof -
  have m: "multiplier_of L lwb i j d = spec_multiplier A L lwb i j d"
    using comm e by (rule multiplier_of_spec)
  show ?thesis by (simp add: offdiag_step_def spec_band_step_def m)
qed

lemma put_other_row: "n \<noteq> nat i \<Longrightarrow> put L i c x ! n = L ! n"
  by (simp add: put_def)

lemma row_step_spec:
  fixes L :: "'a::{minus,times,inverse,abs,ord,numeral} list list"
  assumes comm: "\<And>x y :: 'a. x * y = y * x"
    and S: "mat_wf \<lparr>mat = L, rws = rows, cls = cols\<rparr>" and c: "1 \<le> cols"
    and i: "0 \<le> i" "i < rows" and rowi: "L ! nat i = A ! nat i"
  shows "row_step rows cols i (L, lwb) = spec_row_step A rows cols i (L, lwb) \<and>
         mat_wf \<lparr>mat = fst (row_step rows cols i (L, lwb)), rws = rows, cls = cols\<rparr> \<and>
         (\<forall>n. n \<noteq> nat i \<longrightarrow> fst (row_step rows cols i (L, lwb)) ! n = L ! n)"
proof -
  let ?M = "\<lambda>X. \<lparr>mat = X, rws = rows, cls = cols\<rparr>"
  let ?d = "pivot_of L lwb i"
  let ?hi = "min (i + cols) rows - 1"
  let ?P = "\<lambda>j (Ll :: 'a list list \<times> int list). mat_wf (?M (fst Ll)) \<and>
              (\<forall>n. n \<noteq> nat i \<longrightarrow> fst Ll ! n = L ! n) \<and>
              (\<forall>c. j - i \<le> c \<and> c < cols \<longrightarrow> ent (fst Ll) i c = ent A i c)"
  have entA: "\<And>c. ent L i c = ent A i c" using rowi by (simp add: ent_def)
  have d: "?d = spec_diag A L lwb i" using comm entA by (rule pivot_of_spec)
  have i0: "i < rws (?M L)" "(0::int) \<le> 0" "0 < cls (?M L)" using i c by simp_all
  have "fold (offdiag_step i ?d) [i + 1..?hi] (put L i 0 ?d, lwb) =
        fold (spec_band_step A i ?d) [i + 1..?hi] (put L i 0 ?d, lwb) \<and>
        ?P (max (i + 1) (?hi + 1)) (fold (offdiag_step i ?d) [i + 1..?hi] (put L i 0 ?d, lwb))"
  proof (rule fold_upto_cong[where P = ?P])
    have "mat_wf (?M (put L i 0 ?d))" using wr2_wf(2)[OF S i(1) i0, of ?d] by simp
    moreover have "\<forall>c. i + 1 - i \<le> c \<and> c < cols \<longrightarrow> ent (put L i 0 ?d) i c = ent A i c"
    proof (intro allI impI)
      fix c' assume "i + 1 - i \<le> c' \<and> c' < cols"
      then have c': "0 \<le> c'" "c' \<noteq> 0" by simp_all
      have "ent (put L i 0 ?d) i c' = ent L i c'"
        using ent_put_wf[OF S i(1) i0 i(1) c'(1), of ?d] c'(2) by simp
      then show "ent (put L i 0 ?d) i c' = ent A i c'" using entA by simp
    qed
    ultimately show "?P (i + 1) (put L i 0 ?d, lwb)" by (simp add: put_other_row)
  next
    fix j and Ll :: "'a list list \<times> int list"
    assume j: "i + 1 \<le> j" "j \<le> ?hi" and P: "?P j Ll"
    obtain L' lwb' where Ll: "Ll = (L', lwb')" by (cases Ll)
    have S': "mat_wf (?M L')" and other: "\<And>n. n \<noteq> nat i \<Longrightarrow> L' ! n = L ! n"
      and rest: "\<And>c. j - i \<le> c \<Longrightarrow> c < cols \<Longrightarrow> ent L' i c = ent A i c"
      using P unfolding Ll by simp_all
    have jc: "0 \<le> j - i" "j - i < cols" using j by simp_all
    have ji: "i < rws (?M L')" "0 \<le> j - i" "j - i < cls (?M L')" using i jc by simp_all
    have e: "ent L' i (j - i) = ent A i (j - i)" using rest[of "j - i"] jc by simp
    have eq: "offdiag_step i ?d j Ll = spec_band_step A i ?d j Ll"
      unfolding Ll using comm e by (rule offdiag_step_spec)
    let ?m = "multiplier_of L' lwb' i j ?d"
    have f: "fst (offdiag_step i ?d j Ll) = put L' i (j - i) ?m"
      unfolding Ll by (simp add: offdiag_step_def Let_def)
    have a: "mat_wf (?M (put L' i (j - i) ?m))" using wr2_wf(2)[OF S' i(1) ji, of ?m] by simp
    have b: "\<forall>n. n \<noteq> nat i \<longrightarrow> put L' i (j - i) ?m ! n = L ! n"
      using other by (simp add: put_other_row)
    have cc: "\<forall>c. j + 1 - i \<le> c \<and> c < cols \<longrightarrow> ent (put L' i (j - i) ?m) i c = ent A i c"
    proof (intro allI impI)
      fix c' assume h: "j + 1 - i \<le> c' \<and> c' < cols"
      then have c': "0 \<le> c'" "c' \<noteq> j - i" "j - i \<le> c'" "c' < cols" using jc by simp_all
      have "ent (put L' i (j - i) ?m) i c' = ent L' i c'"
        using ent_put_wf[OF S' i(1) ji i(1) c'(1), of ?m] c'(2) by simp
      then show "ent (put L' i (j - i) ?m) i c' = ent A i c'" using rest[OF c'(3,4)] by simp
    qed
    show "offdiag_step i ?d j Ll = spec_band_step A i ?d j Ll \<and> ?P (j + 1) (offdiag_step i ?d j Ll)"
      unfolding f using eq a b cc by blast
  qed
  then have eq: "fold (offdiag_step i ?d) [i + 1..?hi] (put L i 0 ?d, lwb) =
        fold (spec_band_step A i ?d) [i + 1..?hi] (put L i 0 ?d, lwb)"
    and P: "?P (max (i + 1) (?hi + 1)) (fold (offdiag_step i ?d) [i + 1..?hi] (put L i 0 ?d, lwb))"
    by blast+
  have r: "row_step rows cols i (L, lwb) = fold (offdiag_step i ?d) [i + 1..?hi] (put L i 0 ?d, lwb)"
    by (simp add: row_step_def Let_def)
  have "row_step rows cols i (L, lwb) = spec_row_step A rows cols i (L, lwb)"
    unfolding r eq by (simp add: spec_row_step_def Let_def d)
  then show ?thesis using P unfolding r by blast
qed

lemma factor_of_spec:
  fixes A :: "'a::{minus,times,inverse,abs,ord,numeral} list list"
  assumes comm: "\<And>x y :: 'a. x * y = y * x"
    and S: "mat_wf \<lparr>mat = A, rws = rows, cls = cols\<rparr>" and c: "1 \<le> cols"
  shows "factor_of rows cols A = spec_factor rows cols A"
proof -
  let ?M = "\<lambda>X. \<lparr>mat = X, rws = rows, cls = cols\<rparr>"
  let ?P = "\<lambda>i (Ll :: 'a list list \<times> int list). mat_wf (?M (fst Ll)) \<and>
              (\<forall>k. i \<le> k \<and> k < rows \<longrightarrow> fst Ll ! nat k = A ! nat k)"
  have "fold (row_step rows cols) [0..rows - 1] (A, lwb_init rows cols) =
        fold (spec_row_step A rows cols) [0..rows - 1] (A, lwb_init rows cols) \<and>
        ?P (max 0 (rows - 1 + 1)) (fold (row_step rows cols) [0..rows - 1] (A, lwb_init rows cols))"
  proof (rule fold_upto_cong[where P = ?P])
    show "?P 0 (A, lwb_init rows cols)" using S by simp
  next
    fix i and Ll :: "'a list list \<times> int list"
    assume i: "0 \<le> i" "i \<le> rows - 1" and P: "?P i Ll"
    obtain L lwb where Ll: "Ll = (L, lwb)" by (cases Ll)
    have SL: "mat_wf (?M L)" and orig: "\<And>k. i \<le> k \<Longrightarrow> k < rows \<Longrightarrow> L ! nat k = A ! nat k"
      using P unfolding Ll by simp_all
    have i': "i < rows" using i by simp
    have rowi: "L ! nat i = A ! nat i" using orig[of i] i' by simp
    from row_step_spec[OF comm SL c i(1) i' rowi, of lwb]
    have eq: "row_step rows cols i Ll = spec_row_step A rows cols i Ll"
      and S': "mat_wf (?M (fst (row_step rows cols i Ll)))"
      and other: "\<And>n. n \<noteq> nat i \<Longrightarrow> fst (row_step rows cols i Ll) ! n = L ! n"
      unfolding Ll by blast+
    have "\<forall>k. i + 1 \<le> k \<and> k < rows \<longrightarrow> fst (row_step rows cols i Ll) ! nat k = A ! nat k"
    proof (intro allI impI)
      fix k assume k: "i + 1 \<le> k \<and> k < rows"
      then have "nat k \<noteq> nat i" using i by arith
      then show "fst (row_step rows cols i Ll) ! nat k = A ! nat k"
        using other[of "nat k"] orig[of k] k by simp
    qed
    then show "row_step rows cols i Ll = spec_row_step A rows cols i Ll \<and>
               ?P (i + 1) (row_step rows cols i Ll)"
      using eq S' by blast
  qed
  then show ?thesis
    unfolding factor_of_def spec_factor_def lwb_init_spec by blast
qed

text \<open>Claim C1. For a banded matrix with \<open>1 \<le> cls \<le> rws\<close> the factorization pass
  returns the storage and the lower bounds that the steps 1, 2a and 2b of the
  specification produce, row by row from 0 to \<open>rws - 1\<close>: \<open>lwb\<close> starts at \<open>spec_lwb\<close>; row
  \<open>i\<close> gets \<open>spec_diag\<close> in its physical column 0 and, for each \<open>j\<close> from \<open>i + 1\<close> to
  \<open>min (i + cls) rws - 1\<close>, \<open>spec_multiplier\<close> in its physical column \<open>j - i\<close>, and
  \<open>lwb[j]\<close> becomes \<open>i + 1\<close> exactly when the multiplier is below \<^verbatim>\<open>1e-12\<close> in absolute
  value and \<open>lwb[j] = i\<close>. Both overloads leave these factors in the coefficient matrix on
  every conforming right-hand side. The values are those of the arithmetic of the
  program, whatever it is, as long as its products commute, as those of \<^verbatim>\<open>double\<close> do:
  the quotient by a pivot that is zero and a comparison with the threshold are what that
  arithmetic makes them, and each sum is taken off term by term (\<open>minus_sum\<close>, which in
  exact arithmetic is the difference with the sum, \<open>minus_sum_group\<close>).\<close>

theorem ldlt_factor_spec:
  fixes A :: "'a::{minus,times,inverse,abs,ord,numeral} matrix"
  assumes comm: "\<And>x y :: 'a. x * y = y * x"
    and A: "mat_wf A" and c: "1 \<le> cls A" "cls A \<le> rws A"
  shows "(\<exists>s. ldlt_factor (ldlt_scratch gl gr A) = Inr s \<and>
              rws (self s) = rws A \<and> cls (self s) = cls A \<and>
              (mat (self s), lwbIdx s) = spec_factor (rws A) (cls A) (mat A)) \<and>
         (\<forall>rhs. vec_wf rhs \<and> sz rhs = rws A \<longrightarrow>
            (\<exists>A' rhs'. solveLDLT_Vector gl gr A rhs = Inr (A', rhs') \<and>
               rws A' = rws A \<and> cls A' = cls A \<and>
               mat A' = fst (spec_factor (rws A) (cls A) (mat A)))) \<and>
         (\<forall>R. mat_wf R \<and> rws R = rws A \<longrightarrow>
            (\<exists>A' R'. solveLDLT_Matrix gl gr A R = Inr (A', R') \<and>
               rws A' = rws A \<and> cls A' = cls A \<and>
               mat A' = fst (spec_factor (rws A) (cls A) (mat A))))"
proof (intro conjI allI impI)
  have "\<lparr>mat = mat A, rws = rws A, cls = cls A\<rparr> = A" by simp
  then have "mat_wf \<lparr>mat = mat A, rws = rws A, cls = cls A\<rparr> = mat_wf A" by (rule arg_cong)
  then have "mat_wf \<lparr>mat = mat A, rws = rws A, cls = cls A\<rparr>" using A by blast
  with comm have f: "factor_of (rws A) (cls A) (mat A) = spec_factor (rws A) (cls A) (mat A)"
    using c(1) by (rule factor_of_spec)
  {
    from ldlt_factor_ok[OF A c, of gl gr] obtain s where
      s: "ldlt_factor (ldlt_scratch gl gr A) = Inr s"
        "factors s = factor_of (rws A) (cls A) (mat A)" "frame_ok (rws A) (cls A) s"
      by blast
    have "(mat (self s), lwbIdx s) = spec_factor (rws A) (cls A) (mat A)"
      using s(2) unfolding f factors_def .
    then show "\<exists>s. ldlt_factor (ldlt_scratch gl gr A) = Inr s \<and>
              rws (self s) = rws A \<and> cls (self s) = cls A \<and>
              (mat (self s), lwbIdx s) = spec_factor (rws A) (cls A) (mat A)"
      using s(1) frame_okD(2,3)[OF s(3)] by blast
  }
  {
    fix rhs :: "'a vector" assume "vec_wf rhs \<and> sz rhs = rws A"
    then have "vec_wf rhs" "sz rhs = rws A" by simp_all
    from solveLDLT_Vector_ok[OF A c this, of gl gr]
    show "\<exists>A' rhs'. solveLDLT_Vector gl gr A rhs = Inr (A', rhs') \<and>
               rws A' = rws A \<and> cls A' = cls A \<and>
               mat A' = fst (spec_factor (rws A) (cls A) (mat A))"
      unfolding f by blast
  }
  {
    fix R :: "'a matrix" assume "mat_wf R \<and> rws R = rws A"
    then have "mat_wf R" "rws R = rws A" by simp_all
    from solveLDLT_Matrix_ok[OF A c this, of gl gr]
    show "\<exists>A' R'. solveLDLT_Matrix gl gr A R = Inr (A', R') \<and>
               rws A' = rws A \<and> cls A' = cls A \<and>
               mat A' = fst (spec_factor (rws A) (cls A) (mat A))"
      unfolding f by blast
  }
qed

lemma upto_0_2: "[0..2::int] = [0, 1, 2]"
  by (simp add: upto_rec1)

lemma spec_factor_example:
  "spec_factor 3 2 [[4, 0], [4, 1], [4, 0 :: real]] =
     ([[4, 0], [4, 1 / 4], [15 / 4, 0]], [0, 1, 1])"
  by (simp add: spec_factor_def spec_row_step_def spec_band_step_def spec_multiplier_def
      spec_diag_def spec_r_def spec_lwb_def minus_sum_def ent_def put_def upto_0_2 upto_rec1
      Let_def)

theorem ldlt_factor_spec_witness:
  "mat_wf \<lparr>mat = [[4, 0], [4, 1], [4, 0 :: real]], rws = 3, cls = 2\<rparr> \<and>
   (\<exists>s. ldlt_factor (ldlt_scratch int real
            \<lparr>mat = [[4, 0], [4, 1], [4, 0]], rws = 3, cls = 2\<rparr>) = Inr s \<and>
        mat (self s) = [[4, 0], [4, 1 / 4], [15 / 4, 0]] \<and>
        lwbIdx s = [0, 1, 1])"
proof -
  let ?A = "\<lparr>mat = [[4, 0], [4, 1], [4, 0 :: real]], rws = 3, cls = 2\<rparr>"
  have a: "mat_wf ?A" by (rule mat_wfI) auto
  have c: "1 \<le> cls ?A" "cls ?A \<le> rws ?A" by simp_all
  have m: "\<And>x y :: real. x * y = y * x" by (rule mult.commute)
  from ldlt_factor_spec[OF m a c, of int real] obtain s where
    "ldlt_factor (ldlt_scratch int real ?A) = Inr s"
    "(mat (self s), lwbIdx s) = spec_factor (rws ?A) (cls ?A) (mat ?A)"
    by blast
  then show ?thesis using a by (simp add: spec_factor_example)
qed

end
